theory Spec2Isabelle
  imports Main "HOL-Library.Word" "HOL-Library.Sublist"
begin

section \<open>Errors and Kubernetes objects\<close>

text \<open>
  The model covers \<^verbatim>\<open>pkg/update/update.go\<close>: the entry point
  \<^verbatim>\<open>UpdateClusterRegionStatefulSet\<close>, the strategy
  \<^verbatim>\<open>PartitionedRollingUpdateStrategy\<close>, the poller
  \<^verbatim>\<open>waitUntilPerPodVerificationFuncVerifies\<close> and the classifier
  \<^verbatim>\<open>handleStsError\<close>.

  A Go \<^verbatim>\<open>error\<close> value is one of: a \<^verbatim>\<open>*k8sErrors.StatusError\<close> with
  the reason and message of its \<^verbatim>\<open>ErrStatus\<close>, any other error (identified by
  its text), or the result of \<^verbatim>\<open>errors.Wrapf\<close>, which keeps the wrapped error as
  its cause together with the format string and its arguments. A \<^verbatim>\<open>nil\<close> error
  is \<open>None\<close> of \<open>go_error option\<close>.
\<close>

datatype StatusReason = StatusReasonNotFound | StatusReasonConflict | StatusReasonOther string

datatype logval = StrVal string | IntVal int

datatype go_error =
    StatusError StatusReason string
  | PlainError string
  | Wrapf go_error string "logval list"

text \<open>
  \<^verbatim>\<open>k8sErrors.ReasonForError\<close> finds the API status of an error, looking through
  wrappers; \<open>None\<close> stands for \<^verbatim>\<open>StatusReasonUnknown\<close>.
  \<^verbatim>\<open>IsNotFound\<close> and \<^verbatim>\<open>IsConflict\<close> compare that reason.
\<close>

fun ReasonForError :: "go_error \<Rightarrow> StatusReason option" where
  "ReasonForError (StatusError r m) = Some r"
| "ReasonForError (PlainError m) = None"
| "ReasonForError (Wrapf e f args) = ReasonForError e"

definition IsNotFound :: "go_error \<Rightarrow> bool" where
  "IsNotFound err = (ReasonForError err = Some StatusReasonNotFound)"

definition IsConflict :: "go_error \<Rightarrow> bool" where
  "IsConflict err = (ReasonForError err = Some StatusReasonConflict)"

text \<open>
  Of a \<^verbatim>\<open>v1.StatefulSet\<close> the code reads \<^verbatim>\<open>Name\<close>, \<^verbatim>\<open>Namespace\<close> and
  \<^verbatim>\<open>Spec.Replicas\<close> (an \<^verbatim>\<open>*int32\<close>, \<open>None\<close> when nil) and writes
  \<^verbatim>\<open>Spec.UpdateStrategy.RollingUpdate\<close> (a pointer to a struct whose
  \<^verbatim>\<open>Partition\<close> is an \<^verbatim>\<open>*int32\<close>). Every other field of the object
  (resource version, pod template, ...) lives in the extension part of the record.
\<close>

datatype RollingUpdateStatefulSetStrategy =
  RollingUpdateStatefulSetStrategy (Partition: "32 word option")

record StatefulSet =
  Name :: string
  Namespace :: string
  Replicas :: "32 word option"
  RollingUpdate :: "RollingUpdateStatefulSetStrategy option"

type_synonym 'm sts_obj = "'m StatefulSet_scheme"

definition cutoff :: "'m sts_obj \<Rightarrow> 32 word option" where
  "cutoff s = (case RollingUpdate s of None \<Rightarrow> None | Some r \<Rightarrow> Partition r)"

section \<open>Collaborators, the world and the trace of calls\<close>

text \<open>
  Everything outside the package (the API server behind the clientset, the pods, the
  clock, the logger's sink) is a world of type \<open>'w\<close>. A collaborator is a function that
  takes the world and returns the next world with its answer. The code's own calls are
  recorded, in order and with their arguments and answers, in a trace. A call of the
  verification function is recorded with its place in the code: line 176, at the start of
  an iteration, or line 246, in the poller.
\<close>

datatype verify_site = AtLoopStart | InPoller

datatype 'm event =
    EvGet string string "go_error + 'm sts_obj"
  | EvUpdate string "'m sts_obj" "go_error + 'm sts_obj"
  | EvVerify verify_site int "go_error option"
  | EvWaitReady "go_error option"
  | EvProbe string int "go_error option"
  | EvLogError go_error string "(string \<times> logval) list"
  | EvLogDebug string "(string \<times> logval) list"

record ('w, 'm) io =
  world :: 'w
  trace :: "'m event list"

text \<open>\<^verbatim>\<open>clientset.AppsV1().StatefulSets(namespace)\<close>: \<^verbatim>\<open>Get(ctx, name, opts)\<close> and
  \<^verbatim>\<open>Update(ctx, sts, opts)\<close>. The first string is the namespace.\<close>

record ('w, 'm) clientset =
  StatefulSets_Get :: "'w \<Rightarrow> string \<Rightarrow> string \<Rightarrow> 'w \<times> (go_error + 'm sts_obj)"
  StatefulSets_Update :: "'w \<Rightarrow> string \<Rightarrow> 'm sts_obj \<Rightarrow> 'w \<times> (go_error + 'm sts_obj)"

record ('w, 'm) UpdateSts =
  clientset :: "('w, 'm) clientset"
  sts :: "'m sts_obj"
  namespace :: string
  name :: string

record 'w UpdateTimer =
  podUpdateTimeout :: int
  podMaxPollingInterval :: int
  healthChecker_Probe :: "'w \<Rightarrow> string \<Rightarrow> int \<Rightarrow> 'w \<times> go_error option"
  waitUntilAllPodsReadyFunc :: "'w \<Rightarrow> 'w \<times> go_error option"

type_synonym ('w, 'm) verification_func =
  "'w \<Rightarrow> ('w, 'm) UpdateSts \<Rightarrow> int \<Rightarrow> 'w \<times> go_error option"

definition call_Get ::
  "('w, 'm) clientset \<Rightarrow> string \<Rightarrow> string \<Rightarrow> ('w, 'm, 'z) io_scheme
    \<Rightarrow> ('w, 'm, 'z) io_scheme \<times> (go_error + 'm sts_obj)" where
  "call_Get cl ns nm s =
     (let (w, r) = StatefulSets_Get cl (world s) ns nm
      in (s\<lparr>world := w, trace := trace s @ [EvGet ns nm r]\<rparr>, r))"

definition call_Update ::
  "('w, 'm) clientset \<Rightarrow> string \<Rightarrow> 'm sts_obj \<Rightarrow> ('w, 'm, 'z) io_scheme
    \<Rightarrow> ('w, 'm, 'z) io_scheme \<times> (go_error + 'm sts_obj)" where
  "call_Update cl ns obj s =
     (let (w, r) = StatefulSets_Update cl (world s) ns obj
      in (s\<lparr>world := w, trace := trace s @ [EvUpdate ns obj r]\<rparr>, r))"

definition call_verify ::
  "verify_site \<Rightarrow> ('w, 'm) verification_func \<Rightarrow> ('w, 'm) UpdateSts \<Rightarrow> int
    \<Rightarrow> ('w, 'm, 'z) io_scheme \<Rightarrow> ('w, 'm, 'z) io_scheme \<times> go_error option" where
  "call_verify site V u podNumber s =
     (let (w, r) = V (world s) u podNumber
      in (s\<lparr>world := w, trace := trace s @ [EvVerify site podNumber r]\<rparr>, r))"

definition call_waitReady ::
  "'w UpdateTimer \<Rightarrow> ('w, 'm, 'z) io_scheme \<Rightarrow> ('w, 'm, 'z) io_scheme \<times> go_error option" where
  "call_waitReady t s =
     (let (w, r) = waitUntilAllPodsReadyFunc t (world s)
      in (s\<lparr>world := w, trace := trace s @ [EvWaitReady r]\<rparr>, r))"

definition call_Probe ::
  "'w UpdateTimer \<Rightarrow> string \<Rightarrow> int \<Rightarrow> ('w, 'm, 'z) io_scheme
    \<Rightarrow> ('w, 'm, 'z) io_scheme \<times> go_error option" where
  "call_Probe t label podNumber s =
     (let (w, r) = healthChecker_Probe t (world s) label podNumber
      in (s\<lparr>world := w, trace := trace s @ [EvProbe label podNumber r]\<rparr>, r))"

definition log_Error ::
  "go_error \<Rightarrow> string \<Rightarrow> (string \<times> logval) list \<Rightarrow> ('w, 'm, 'z) io_scheme
    \<Rightarrow> ('w, 'm, 'z) io_scheme" where
  "log_Error err msg kvs s = s\<lparr>trace := trace s @ [EvLogError err msg kvs]\<rparr>"

definition log_Debug ::
  "string \<Rightarrow> (string \<times> logval) list \<Rightarrow> ('w, 'm, 'z) io_scheme \<Rightarrow> ('w, 'm, 'z) io_scheme" where
  "log_Debug msg kvs s = s\<lparr>trace := trace s @ [EvLogDebug msg kvs]\<rparr>"

section \<open>The error classifier\<close>

text \<open>\<^verbatim>\<open>handleStsError(err, l, stsName, ns)\<close>, lines 257-267. The type assertion
  \<^verbatim>\<open>err.(*k8sErrors.StatusError)\<close> holds for a status error itself, not for a
  wrapped one. The third branch logs under the key \<^verbatim>\<open>namspace\<close>, as the source
  spells it.\<close>

definition handleStsError ::
  "go_error \<Rightarrow> string \<Rightarrow> string \<Rightarrow> ('w, 'm, 'z) io_scheme
    \<Rightarrow> ('w, 'm, 'z) io_scheme \<times> go_error" where
  "handleStsError err stsName ns s =
     (if IsNotFound err then
        (log_Error err ''sts is not found''
           [(''stsName'', StrVal stsName), (''namespace'', StrVal ns)] s,
         Wrapf err ''sts is not found: %s ns: %s'' [StrVal stsName, StrVal ns])
      else
        (case err of
           StatusError r m \<Rightarrow>
             (log_Error err (''Error getting statefulset '' @ m)
                [(''stsName'', StrVal stsName), (''namespace'', StrVal ns)] s,
              err)
         | _ \<Rightarrow>
             (log_Error err ''error getting statefulset''
                [(''stsName'', StrVal stsName), (''namspace'', StrVal ns)] s,
              err)))"

section \<open>The two retry helpers of the libraries\<close>

text \<open>
  Modelled from the spec: \<^verbatim>\<open>retry.RetryOnConflict\<close> and its policy
  \<^verbatim>\<open>retry.DefaultRetry\<close> belong to k8s.io/client-go, which is not under src/.
  The helper calls the function up to \<open>Steps\<close> times (the policy's attempt count, a
  parameter here): it returns nil as soon as the function does, returns a failure that is
  not a conflict at once, and after \<open>Steps\<close> conflicts returns the last conflict.
  The pauses between the attempts are not modelled.
\<close>

fun RetryOnConflict_loop ::
  "nat \<Rightarrow> ('s \<Rightarrow> 's \<times> go_error option) \<Rightarrow> go_error option \<Rightarrow> 's \<Rightarrow> 's \<times> go_error option" where
  "RetryOnConflict_loop 0 fn lastErr s = (s, lastErr)"
| "RetryOnConflict_loop (Suc n) fn lastErr s =
     (case fn s of
        (s', None) \<Rightarrow> (s', None)
      | (s', Some err) \<Rightarrow>
          if IsConflict err then RetryOnConflict_loop n fn (Some err) s' else (s', Some err))"

definition RetryOnConflict ::
  "nat \<Rightarrow> ('s \<Rightarrow> 's \<times> go_error option) \<Rightarrow> 's \<Rightarrow> 's \<times> go_error option" where
  "RetryOnConflict Steps fn s = RetryOnConflict_loop Steps fn None s"

text \<open>
  Modelled from the spec: \<^verbatim>\<open>backoff.NewExponentialBackOff\<close> and
  \<^verbatim>\<open>backoff.Retry\<close> belong to github.com/cenkalti/backoff, which is not under
  src/. The back-off object has the settings the spec lists (initial interval, growth
  factor, maximum interval, maximum elapsed time) and remembers its current interval and
  the time it was made. \<open>Retry\<close> calls the operation; when it returns nil, so does
  \<open>Retry\<close>; after a failure the library either gives up, and \<open>Retry\<close> returns an
  error, or pauses and calls the operation again with the object as it is then.

  The two places where the library looks at the world (its clock) are the fields of
  \<open>backoff\<close>: \<open>new_backoff\<close> makes the object, \<open>after_failure\<close> takes the object,
  the world and the operation's error and answers with the next world, the object, and the
  error to return (\<open>Some\<close>) or \<open>None\<close> to go on. Nothing bounds the number of rounds, so
  not returning is \<open>None\<close>. The library as the spec describes it, with a clock, is
  \<open>exponential_backoff\<close> below.
\<close>

record ExponentialBackOff =
  InitialInterval :: int
  Multiplier :: nat
  MaxInterval :: int
  MaxElapsedTime :: int
  currentInterval :: int
  startTime :: int

record 'w backoff =
  new_backoff :: "'w \<Rightarrow> ExponentialBackOff"
  after_failure :: "ExponentialBackOff \<Rightarrow> 'w \<Rightarrow> go_error \<Rightarrow> 'w \<times> ExponentialBackOff \<times> go_error option"

partial_function (option) backoff_Retry ::
  "'w backoff \<Rightarrow> ExponentialBackOff
    \<Rightarrow> (('w, 'm, 'z) io_scheme \<Rightarrow> ('w, 'm, 'z) io_scheme \<times> go_error option)
    \<Rightarrow> ('w, 'm, 'z) io_scheme \<Rightarrow> (('w, 'm, 'z) io_scheme \<times> go_error option) option" where
  "backoff_Retry lib b f s =
     (case f s of
        (s1, None) \<Rightarrow> Some (s1, None)
      | (s1, Some err) \<Rightarrow>
          (case after_failure lib b (world s1) err of
             (w, b', Some err') \<Rightarrow> Some (s1\<lparr>world := w\<rparr>, Some err')
           | (w, b', None) \<Rightarrow> backoff_Retry lib b' f (s1\<lparr>world := w\<rparr>)))"

text \<open>\<^verbatim>\<open>waitUntilPerPodVerificationFuncVerifies\<close>, lines 238-253.\<close>

definition waitUntilPerPodVerificationFuncVerifies ::
  "'w backoff \<Rightarrow> ('w, 'm) UpdateSts \<Rightarrow> ('w, 'm) verification_func \<Rightarrow> int \<Rightarrow> 'w UpdateTimer
    \<Rightarrow> ('w, 'm, 'z) io_scheme \<Rightarrow> (('w, 'm, 'z) io_scheme \<times> go_error option) option" where
  "waitUntilPerPodVerificationFuncVerifies lib updateSts perPodVerificationFunc podNumber
      updateTimer s =
     (let f = call_verify InPoller perPodVerificationFunc updateSts podNumber;
          b = new_backoff lib (world s);
          b = b\<lparr>MaxElapsedTime := podUpdateTimeout updateTimer\<rparr>;
          b = b\<lparr>MaxInterval := podMaxPollingInterval updateTimer\<rparr>
      in backoff_Retry lib b f s)"

text \<open>
  Modelled from the spec: the back-off of spec 4.4, over a world with a clock. The elapsed
  time counts from the making of the object. After a failure of the operation the library
  gives up once the elapsed time exceeds the maximum elapsed time, and then returns a
  timeout error that carries the operation's last failure; otherwise it pauses for the
  current interval, capped at the maximum interval, and multiplies the current interval by
  the growth factor. The library's own values of the settings (\<open>defaults\<close>) are a
  parameter: the source overwrites two of them and leaves the initial interval and the
  growth factor as they are. A pause moves the clock on; the world keeps the pauses taken,
  each with the time at which it began.
\<close>

record timed =
  clock :: int
  pauses :: "(int \<times> int) list"

definition sleep :: "int \<Rightarrow> 'x timed_scheme \<Rightarrow> 'x timed_scheme" where
  "sleep d w = w\<lparr>clock := clock w + max 0 d, pauses := pauses w @ [(clock w, d)]\<rparr>"

definition timeout_error :: "go_error \<Rightarrow> go_error" where
  "timeout_error last_failure = Wrapf last_failure ''timeout'' []"

definition exponential_backoff :: "ExponentialBackOff \<Rightarrow> ('x timed_scheme) backoff" where
  "exponential_backoff defaults =
     \<lparr>new_backoff = (\<lambda>w.
        defaults\<lparr>currentInterval := InitialInterval defaults, startTime := clock w\<rparr>),
      after_failure = (\<lambda>b w err.
        if MaxElapsedTime b < clock w - startTime b then (w, b, Some (timeout_error err))
        else (sleep (min (currentInterval b) (MaxInterval b)) w,
              b\<lparr>currentInterval := currentInterval b * int (Multiplier b)\<rparr>, None))\<rparr>"

section \<open>The partitioned rolling update\<close>

text \<open>
  The local state of one execution of the strategy's closure (lines 164-235).
  \<open>mem_sts\<close> is the object \<^verbatim>\<open>updateSts.sts\<close> points to. The local variable
  \<^verbatim>\<open>sts\<close> starts as the same pointer and is rebound to a fetched object at line 226:
  \<open>local_sts\<close> is \<open>None\<close> while it still is \<^verbatim>\<open>updateSts.sts\<close> and holds the
  fetched object afterwards. Line 187 stores \<^verbatim>\<open>&partition\<close>, the address of the loop
  variable: \<open>mem_loopvar\<close> records that the shared object's partition is that address.
\<close>

record ('w, 'm) vars = "('w, 'm) io" +
  skipSleep :: bool
  mem_sts :: "'m sts_obj"
  local_sts :: "'m sts_obj option"
  mem_loopvar :: bool

definition cur_sts :: "('w, 'm) vars \<Rightarrow> 'm sts_obj" where
  "cur_sts v = (case local_sts v of None \<Rightarrow> mem_sts v | Some s \<Rightarrow> s)"

definition with_partition :: "32 word \<Rightarrow> 'm sts_obj \<Rightarrow> 'm sts_obj" where
  "with_partition p s = s\<lparr>RollingUpdate := Some (RollingUpdateStatefulSetStrategy (Some p))\<rparr>"

text \<open>Lines 187-189: the assignment goes to the object the local \<^verbatim>\<open>sts\<close> points to.\<close>

definition set_partition :: "32 word \<Rightarrow> ('w, 'm) vars \<Rightarrow> ('w, 'm) vars" where
  "set_partition p v =
     (case local_sts v of
        None \<Rightarrow> v\<lparr>mem_sts := with_partition p (mem_sts v), mem_loopvar := True\<rparr>
      | Some s \<Rightarrow> v\<lparr>local_sts := Some (with_partition p s)\<rparr>)"

text \<open>
  What \<^verbatim>\<open>perPodVerificationFunc\<close> finds behind the pointer \<^verbatim>\<open>updateSts\<close> when
  the loop variable is \<open>p\<close>. Up to Go 1.21 one loop variable serves all iterations, so
  a stored \<^verbatim>\<open>&partition\<close> reads as the current \<open>p\<close>; from Go 1.22 every iteration
  has its own variable and the stored value stays (\<open>perIteration\<close>).
\<close>

definition updateSts_now ::
  "bool \<Rightarrow> ('w, 'm) UpdateSts \<Rightarrow> ('w, 'm) vars \<Rightarrow> 32 word \<Rightarrow> ('w, 'm) UpdateSts" where
  "updateSts_now perIteration updateSts v p =
     updateSts\<lparr>sts := (if mem_loopvar v \<and> \<not> perIteration
                        then with_partition p (mem_sts v) else mem_sts v)\<rparr>"

text \<open>The closure handed to \<^verbatim>\<open>retry.RetryOnConflict\<close>, lines 194-205. Its
  \<^verbatim>\<open>sts\<close> is a new variable; \<^verbatim>\<open>sts.Name\<close> in the \<^verbatim>\<open>Get\<close> is the outer one's.\<close>

definition retry_closure ::
  "('w, 'm) clientset \<Rightarrow> string \<Rightarrow> string \<Rightarrow> 32 word \<Rightarrow> ('w, 'm) vars
    \<Rightarrow> ('w, 'm) vars \<times> go_error option" where
  "retry_closure cl stsNamespace stsName p v =
     (let (v1, r) = call_Get cl stsNamespace stsName v
      in case r of
           Inl err \<Rightarrow> (v1, Some err)
         | Inr fetched \<Rightarrow>
             (let (v2, r2) = call_Update cl stsNamespace (with_partition p fetched) v1
              in (v2, case r2 of Inl err \<Rightarrow> Some err | Inr updated \<Rightarrow> None)))"

text \<open>Lines 187-213: set the partition, update, retry on conflict, classify a failure.
  The result is the error the strategy returns with, if any.\<close>

definition updatePartition ::
  "nat \<Rightarrow> ('w, 'm) UpdateSts \<Rightarrow> string \<Rightarrow> string \<Rightarrow> 32 word \<Rightarrow> ('w, 'm) vars
    \<Rightarrow> ('w, 'm) vars \<times> go_error option" where
  "updatePartition Steps updateSts stsName stsNamespace p v =
     (let v1 = set_partition p v;
          (v2, r) = call_Update (clientset updateSts) stsNamespace (cur_sts v1) v1
      in case r of
           Inr updated \<Rightarrow> (v2, None)
         | Inl err \<Rightarrow>
             if IsConflict err then
               (case RetryOnConflict Steps
                       (retry_closure (clientset updateSts) stsNamespace (Name (cur_sts v2)) p) v2 of
                  (v3, None) \<Rightarrow> (v3, None)
                | (v3, Some err') \<Rightarrow>
                    (let (v4, e) = handleStsError err' stsName stsNamespace v3 in (v4, Some e)))
             else (let (v3, e) = handleStsError err stsName stsNamespace v2 in (v3, Some e)))"

datatype ('w, 'm) flow =
    Continue "('w, 'm) vars"
  | Return "('w, 'm) vars" bool "go_error option"

text \<open>Lines 215-232: poll the verification, refresh the object, probe the health.\<close>

definition verifyRefreshProbe ::
  "'w backoff \<Rightarrow> bool \<Rightarrow> ('w, 'm) verification_func \<Rightarrow> ('w, 'm) UpdateSts \<Rightarrow> 'w UpdateTimer
    \<Rightarrow> string \<Rightarrow> string \<Rightarrow> 32 word \<Rightarrow> ('w, 'm) vars \<Rightarrow> ('w, 'm) flow option" where
  "verifyRefreshProbe lib perIteration perPodVerificationFunc updateSts updateTimer
      stsName stsNamespace p v =
     (let v1 = log_Debug ''waiting until partition done updating''
                 [(''partition number:'', IntVal (sint p))] v
      in case waitUntilPerPodVerificationFuncVerifies lib
                (updateSts_now perIteration updateSts v1 p) perPodVerificationFunc (sint p)
                updateTimer v1 of
           None \<Rightarrow> None
         | Some (v2, Some err) \<Rightarrow>
             Some (Return v2 False
               (Some (Wrapf err ''error while running verificationFunc on pod %d'' [IntVal (sint p)])))
         | Some (v2, None) \<Rightarrow>
             (let (v3, r) = call_Get (clientset updateSts) stsNamespace stsName v2
              in case r of
                   Inl err \<Rightarrow>
                     (let (v4, e) = handleStsError err stsName stsNamespace v3
                      in Some (Return v4 False (Some e)))
                 | Inr fetched \<Rightarrow>
                     (let v4 = v3\<lparr>local_sts := Some fetched\<rparr>;
                          (v5, r5) = call_Probe updateTimer
                                       (''between updating pods for '' @ stsName) (sint p) v4
                      in case r5 of
                           Some err \<Rightarrow> Some (Return v5 (skipSleep v5) (Some err))
                         | None \<Rightarrow> Some (Continue v5))))"

text \<open>The loop body, lines 171-232, for the loop variable \<open>p\<close>.\<close>

definition iteration ::
  "nat \<Rightarrow> 'w backoff \<Rightarrow> bool \<Rightarrow> ('w, 'm) verification_func \<Rightarrow> ('w, 'm) UpdateSts
    \<Rightarrow> 'w UpdateTimer \<Rightarrow> ('w, 'm) vars \<Rightarrow> 32 word \<Rightarrow> ('w, 'm) flow option" where
  "iteration Steps lib perIteration perPodVerificationFunc updateSts updateTimer v p =
     (let stsName = Name (cur_sts v);
          stsNamespace = Namespace (cur_sts v);
          (v1, r) = call_verify AtLoopStart perPodVerificationFunc
                      (updateSts_now perIteration updateSts v p) (sint p) v
      in case r of
           None \<Rightarrow>
             Some (Continue
               ((log_Debug ''already updated, skipping sleep'' [(''partition'', IntVal (sint p))] v1)
                  \<lparr>skipSleep := True\<rparr>))
         | Some verr \<Rightarrow>
             (let v2 = v1\<lparr>skipSleep := False\<rparr>;
                  (v3, r3) = call_waitReady updateTimer v2
              in case r3 of
                   Some err \<Rightarrow>
                     Some (Return v3 False
                       (Some (Wrapf err ''error while waiting for all pods to be ready'' [])))
                 | None \<Rightarrow>
                     (case updatePartition Steps updateSts stsName stsNamespace p v3 of
                        (v4, Some err) \<Rightarrow> Some (Return v4 False (Some err))
                      | (v4, None) \<Rightarrow>
                          verifyRefreshProbe lib perIteration perPodVerificationFunc updateSts
                            updateTimer stsName stsNamespace p v4)))"

text \<open>The loop of line 170: \<^verbatim>\<open>for partition := *sts.Spec.Replicas - 1; partition >= 0;
  partition--\<close> on an \<^verbatim>\<open>int32\<close>, compared as a signed number.\<close>

function loop ::
  "nat \<Rightarrow> 'w backoff \<Rightarrow> bool \<Rightarrow> ('w, 'm) verification_func \<Rightarrow> ('w, 'm) UpdateSts
    \<Rightarrow> 'w UpdateTimer \<Rightarrow> ('w, 'm) vars \<Rightarrow> 32 word
    \<Rightarrow> (('w, 'm) vars \<times> bool \<times> go_error option) option" where
  "loop Steps lib perIteration V updateSts updateTimer v p =
     (if 0 \<le>s p then
        (case iteration Steps lib perIteration V updateSts updateTimer v p of
           None \<Rightarrow> None
         | Some (Return v' b e) \<Rightarrow> Some (v', b, e)
         | Some (Continue v') \<Rightarrow> loop Steps lib perIteration V updateSts updateTimer v' (p - 1))
      else Some (v, skipSleep v, None))"
  by pat_completeness auto
termination
proof (relation "measure (\<lambda>(Steps, lib, perIteration, V, updateSts, updateTimer, v, p). nat (sint p + 1))")
  show "wf (measure (\<lambda>(Steps, lib, perIteration, V, updateSts, updateTimer, v, p). nat (sint (p::32 word) + 1)))"
    by simp
next
  fix Steps :: nat and lib :: "'w backoff" and perIteration :: bool
    and V :: "('w, 'm) verification_func" and updateSts :: "('w, 'm) UpdateSts"
    and updateTimer :: "'w UpdateTimer" and v :: "('w, 'm) vars" and p :: "32 word"
    and x2 :: "('w, 'm) flow" and x1 :: "('w, 'm) vars"
  assume nonneg: "0 \<le>s p"
  have "sint p \<noteq> - (2 ^ 31)"
    using nonneg by (simp add: word_sle_eq)
  then have "sint (p - 1) = sint p - 1"
    using sint_range_size [of p]
    by (simp add: sint_word_ariths signed_take_bit_int_eq_self_iff word_size)
  then show "((Steps, lib, perIteration, V, updateSts, updateTimer, x1, p - 1),
              (Steps, lib, perIteration, V, updateSts, updateTimer, v, p))
             \<in> measure (\<lambda>(Steps, lib, perIteration, V, updateSts, updateTimer, v, p). nat (sint p + 1))"
    using nonneg by (simp add: word_sle_eq)
qed

text \<open>
  The result of a call: a return with the pair \<^verbatim>\<open>(bool, error)\<close>, or a panic.
  \<^verbatim>\<open>*sts.Spec.Replicas\<close> at line 170 panics when the pointer is nil.
\<close>

datatype outcome = Returned bool "go_error option" | Panicked

definition io_of :: "('w, 'm, 'z) io_scheme \<Rightarrow> ('w, 'm) io" where
  "io_of v = \<lparr>world = world v, trace = trace v\<rparr>"

definition init_vars :: "('w, 'm) UpdateSts \<Rightarrow> ('w, 'm) io \<Rightarrow> ('w, 'm) vars" where
  "init_vars updateSts s =
     \<lparr>world = world s, trace = trace s, skipSleep = False, mem_sts = sts updateSts,
      local_sts = None, mem_loopvar = False\<rparr>"

type_synonym ('w, 'm) strategy_func =
  "('w, 'm) UpdateSts \<Rightarrow> 'w UpdateTimer \<Rightarrow> ('w, 'm) io \<Rightarrow> (('w, 'm) io \<times> outcome) option"

definition PartitionedRollingUpdateStrategy ::
  "nat \<Rightarrow> 'w backoff \<Rightarrow> bool \<Rightarrow> ('w, 'm) verification_func \<Rightarrow> ('w, 'm) strategy_func" where
  "PartitionedRollingUpdateStrategy Steps lib perIteration perPodVerificationFunc
      updateSts updateTimer s =
     (case Replicas (sts updateSts) of
        None \<Rightarrow> Some (s, Panicked)
      | Some n \<Rightarrow>
          (case loop Steps lib perIteration perPodVerificationFunc updateSts updateTimer
                  (init_vars updateSts s) (n - 1) of
             None \<Rightarrow> None
           | Some (v, b, e) \<Rightarrow> Some (io_of v, Returned b e)))"

section \<open>The entry point\<close>

record ('w, 'm) updateFunctionSuite =
  updateFunc :: "'w \<Rightarrow> 'm sts_obj \<Rightarrow> 'w \<times> (go_error + 'm sts_obj)"
  updateStrategyFunc :: "('w, 'm) strategy_func"

text \<open>\<^verbatim>\<open>UpdateClusterRegionStatefulSet\<close>, lines 99-148.\<close>

definition UpdateClusterRegionStatefulSet ::
  "('w, 'm) clientset \<Rightarrow> string \<Rightarrow> string \<Rightarrow> ('w, 'm) updateFunctionSuite
    \<Rightarrow> ('w \<Rightarrow> 'w \<times> go_error option) \<Rightarrow> int \<Rightarrow> int
    \<Rightarrow> ('w \<Rightarrow> string \<Rightarrow> int \<Rightarrow> 'w \<times> go_error option)
    \<Rightarrow> ('w, 'm) io \<Rightarrow> (('w, 'm) io \<times> outcome) option" where
  "UpdateClusterRegionStatefulSet cl nm ns updateSuite waitReady timeout maxPolling healthChecker s =
     (let (s1, r) = call_Get cl ns nm s
      in case r of
           Inl err \<Rightarrow>
             (let (s2, e) = handleStsError err nm ns s1 in Some (s2, Returned False (Some e)))
         | Inr fetched \<Rightarrow>
             (let (w, r2) = updateFunc updateSuite (world s1) fetched;
                  s2 = s1\<lparr>world := w\<rparr>
              in case r2 of
                   Inl err \<Rightarrow>
                     Some (s2, Returned False
                       (Some (Wrapf err ''error applying updateFunc to %s %s'' [StrVal nm, StrVal ns])))
                 | Inr updated \<Rightarrow>
                     (let updateSts = \<lparr>clientset = cl, sts = updated, namespace = ns, name = nm\<rparr>;
                          updateTimer = \<lparr>podUpdateTimeout = timeout,
                                         podMaxPollingInterval = maxPolling,
                                         healthChecker_Probe = healthChecker,
                                         waitUntilAllPodsReadyFunc = waitReady\<rparr>
                      in case updateStrategyFunc updateSuite updateSts updateTimer s2 of
                           None \<Rightarrow> None
                         | Some (s3, Panicked) \<Rightarrow> Some (s3, Panicked)
                         | Some (s3, Returned skip (Some err)) \<Rightarrow>
                             Some (s3, Returned False
                               (Some (Wrapf err ''error applying updateStrategyFunc to %s %s''
                                  [StrVal nm, StrVal ns])))
                         | Some (s3, Returned skip None) \<Rightarrow> Some (s3, Returned skip None))))"

section \<open>Reading a trace\<close>

text \<open>
  The idempotence checks of a trace (the verification calls at the start of an iteration),
  each with its ordinal and answer; the update calls, each with the partition cutoff of the
  object sent and the error of the store's answer (\<open>None\<close> when the store accepted it).
\<close>

fun verify_of :: "'m event \<Rightarrow> (int \<times> go_error option) list" where
  "verify_of (EvVerify AtLoopStart k r) = [(k, r)]"
| "verify_of ev = []"

definition verifies :: "'m event list \<Rightarrow> (int \<times> go_error option) list" where
  "verifies evs = concat (map verify_of evs)"

fun write_of :: "'m event \<Rightarrow> (32 word option \<times> go_error option) list" where
  "write_of (EvUpdate ns obj (Inr u)) = [(cutoff obj, None)]"
| "write_of (EvUpdate ns obj (Inl e)) = [(cutoff obj, Some e)]"
| "write_of ev = []"

definition writes :: "'m event list \<Rightarrow> (32 word option \<times> go_error option) list" where
  "writes evs = concat (map write_of evs)"

fun failed_probe :: "'m event \<Rightarrow> bool" where
  "failed_probe (EvProbe label k (Some e)) = True"
| "failed_probe ev = False"

fun store_event :: "'m event \<Rightarrow> bool" where
  "store_event (EvGet ns nm r) = True"
| "store_event (EvUpdate ns obj r) = True"
| "store_event (EvLogError e msg kvs) = True"
| "store_event ev = False"

text \<open>The updates of one iteration for the cutoff \<open>p\<close>: those the store rejected, with
  their errors \<open>es\<close>, and after them the accepted one, if there is one. A rejected update
  that is followed by another one was rejected with a conflict.\<close>

definition iteration_writes :: "32 word \<Rightarrow> go_error list \<Rightarrow> bool \<Rightarrow> (32 word option \<times> go_error option) list" where
  "iteration_writes p es succ = map (\<lambda>e. (Some p, Some e)) es @ (if succ then [(Some p, None)] else [])"

definition conflicts_first :: "go_error list \<Rightarrow> bool \<Rightarrow> bool" where
  "conflicts_first es succ = (list_all IsConflict (butlast es) \<and> (succ \<longrightarrow> list_all IsConflict es))"

text \<open>The events of lines 187-213 for the cutoff \<open>p\<close>: store calls and error logs only, every
  update carrying \<open>p\<close>.\<close>

definition upd_shape :: "32 word \<Rightarrow> 'm event list \<Rightarrow> go_error list \<Rightarrow> bool \<Rightarrow> bool" where
  "upd_shape p uevs es succ =
     (list_all store_event uevs \<and> writes uevs = iteration_writes p es succ \<and> conflicts_first es succ)"

definition skip_log :: "32 word \<Rightarrow> 'm event" where
  "skip_log p = EvLogDebug ''already updated, skipping sleep'' [(''partition'', IntVal (sint p))]"

definition wait_log :: "32 word \<Rightarrow> 'm event" where
  "wait_log p = EvLogDebug ''waiting until partition done updating''
                    [(''partition number:'', IntVal (sint p))]"

text \<open>The events of an iteration that got past the update, up to the end of the polling.\<close>

definition mutated ::
  "32 word \<Rightarrow> go_error \<Rightarrow> 'm event list \<Rightarrow> go_error option list \<Rightarrow> 'm event list" where
  "mutated p e0 uevs rs =
     [EvVerify AtLoopStart (sint p) (Some e0), EvWaitReady None] @ uevs
       @ wait_log p # map (EvVerify InPoller (sint p)) rs"

text \<open>The ordinals in the order the loop visits them (every iteration starts with the
  idempotence check of its ordinal), the answer of the first idempotence check of an ordinal,
  the cutoffs sent to the store and the cutoffs the store accepted, both read as signed
  numbers.\<close>

definition visited :: "'m event list \<Rightarrow> int list" where
  "visited evs = map fst (verifies evs)"

definition idempotence_check :: "'m event list \<Rightarrow> int \<Rightarrow> go_error option option" where
  "idempotence_check evs k = map_of (verifies evs) k"

definition sent_ordinals :: "'m event list \<Rightarrow> int option list" where
  "sent_ordinals evs = map (map_option sint \<circ> fst) (writes evs)"

definition persisted_ordinals :: "'m event list \<Rightarrow> int option list" where
  "persisted_ordinals evs = map (map_option sint \<circ> fst) (filter (\<lambda>w. snd w = None) (writes evs))"

text \<open>The discipline of the updates of a trace: after an accepted update the next one
  carries another cutoff, and a rejected update is followed by another update only if it
  was rejected with a conflict.\<close>

fun retried_on_conflict :: "(32 word option \<times> go_error option) list \<Rightarrow> bool" where
  "retried_on_conflict ((c, r) # (c', r') # ws) =
     ((case r of None \<Rightarrow> c' \<noteq> c | Some e \<Rightarrow> IsConflict e)
      \<and> retried_on_conflict ((c', r') # ws))"
| "retried_on_conflict ws = True"

text \<open>The idempotence checks and the updates of a trace in the order they were made: a
  check as \<open>Inl\<close> of its ordinal, an update as \<open>Inr\<close> of the cutoff it carries. In
  \<open>own_ordinal cur marks\<close> every update carries the ordinal of the last check before it
  (\<open>cur\<close> before the first check): the ordinal of the iteration it is made in.\<close>

fun mark_of :: "'m event \<Rightarrow> (int + int option) list" where
  "mark_of (EvVerify AtLoopStart k r) = [Inl k]"
| "mark_of (EvUpdate ns obj r) = [Inr (map_option sint (cutoff obj))]"
| "mark_of ev = []"

definition marks :: "'m event list \<Rightarrow> (int + int option) list" where
  "marks evs = concat (map mark_of evs)"

fun own_ordinal :: "int option \<Rightarrow> (int + int option) list \<Rightarrow> bool" where
  "own_ordinal cur [] = True"
| "own_ordinal cur (Inl k # ms) = own_ordinal (Some k) ms"
| "own_ordinal cur (Inr c # ms) = (c = cur \<and> own_ordinal cur ms)"

text \<open>The events of one iteration of ordinal \<open>k\<close>, as far as the projections see them.\<close>

definition iter_events ::
  "32 word \<Rightarrow> go_error option \<Rightarrow> go_error list \<Rightarrow> bool \<Rightarrow> 'm event list \<Rightarrow> bool" where
  "iter_events p r0 es succ xs =
     (verifies xs = [(sint p, r0)] \<and> writes xs = iteration_writes p es succ \<and> conflicts_first es succ \<and>
      marks xs = Inl (sint p) # map (\<lambda>w. Inr (map_option sint (fst w))) (writes xs) \<and>
      (r0 = None \<longrightarrow> es = [] \<and> \<not> succ))"

text \<open>The shape of the events of a run of the loop from \<open>p\<close>, with the hint and the error
  it returns: a sequence of iterations for \<open>p\<close>, \<open>p - 1\<close>, ..., the last of which may abort.\<close>

inductive run_shape ::
  "nat \<Rightarrow> 32 word \<Rightarrow> bool \<Rightarrow> 'm event list \<Rightarrow> bool \<Rightarrow> go_error option \<Rightarrow> bool"
  for Steps :: nat
where
  finished:
    "\<not> 0 \<le>s p \<Longrightarrow> run_shape Steps p skip0 [] skip0 None"
| continued:
    "0 \<le>s p \<Longrightarrow> iter_events p r0 es succ xs \<Longrightarrow> (r0 \<noteq> None \<and> 0 < Steps \<longrightarrow> succ) \<Longrightarrow>
     list_all IsConflict es \<Longrightarrow>
     list_all (\<lambda>ev. \<not> failed_probe ev) xs \<Longrightarrow> run_shape Steps (p - 1) (r0 = None) evs b e \<Longrightarrow>
     run_shape Steps p skip0 (xs @ evs) b e"
| aborted:
    "0 \<le>s p \<Longrightarrow> iter_events p (Some e0) es succ xs \<Longrightarrow> list_all (\<lambda>ev. \<not> failed_probe ev) xs \<Longrightarrow>
     run_shape Steps p skip0 xs False (Some err)"
| probe_aborted:
    "0 \<le>s p \<Longrightarrow> iter_events p (Some e0) es succ xs \<Longrightarrow> list_all (\<lambda>ev. \<not> failed_probe ev) xs \<Longrightarrow>
     run_shape Steps p skip0 (xs @ [EvProbe label (sint p) (Some err)]) False (Some err)"



fun is_wrapped :: "go_error \<Rightarrow> bool" where
  "is_wrapped (Wrapf e f args) = True"
| "is_wrapped e = False"

section \<open>A scripted environment\<close>

text \<open>
  A world for concrete runs: every collaborator answers from its own list and, once the
  list is used up, succeeds (the back-off then gives up). The store keeps the last
  object it accepted and hands it out on \<open>Get\<close>.
\<close>

record script =
  verify_script :: "go_error option list"
  wait_script :: "go_error option list"
  update_script :: "go_error option list"
  get_script :: "go_error option list"
  probe_script :: "go_error option list"
  giveup_script :: "bool list"
  stored :: StatefulSet

definition scripted_verify :: "(script, unit) verification_func" where
  "scripted_verify w u k =
     (case verify_script w of [] \<Rightarrow> (w, None) | r # rs \<Rightarrow> (w\<lparr>verify_script := rs\<rparr>, r))"

definition scripted_Get :: "script \<Rightarrow> string \<Rightarrow> string \<Rightarrow> script \<times> (go_error + StatefulSet)" where
  "scripted_Get w ns nm =
     (case get_script w of
        [] \<Rightarrow> (w, Inr (stored w))
      | None # rs \<Rightarrow> (w\<lparr>get_script := rs\<rparr>, Inr (stored w))
      | Some err # rs \<Rightarrow> (w\<lparr>get_script := rs\<rparr>, Inl err))"

definition scripted_Update ::
  "script \<Rightarrow> string \<Rightarrow> StatefulSet \<Rightarrow> script \<times> (go_error + StatefulSet)" where
  "scripted_Update w ns obj =
     (case update_script w of
        [] \<Rightarrow> (w\<lparr>stored := obj\<rparr>, Inr obj)
      | None # rs \<Rightarrow> (w\<lparr>update_script := rs, stored := obj\<rparr>, Inr obj)
      | Some err # rs \<Rightarrow> (w\<lparr>update_script := rs\<rparr>, Inl err))"

definition scripted_clientset :: "(script, unit) clientset" where
  "scripted_clientset = \<lparr>StatefulSets_Get = scripted_Get, StatefulSets_Update = scripted_Update\<rparr>"

definition scripted_Probe :: "script \<Rightarrow> string \<Rightarrow> int \<Rightarrow> script \<times> go_error option" where
  "scripted_Probe w label k =
     (case probe_script w of [] \<Rightarrow> (w, None) | r # rs \<Rightarrow> (w\<lparr>probe_script := rs\<rparr>, r))"

definition scripted_waitReady :: "script \<Rightarrow> script \<times> go_error option" where
  "scripted_waitReady w =
     (case wait_script w of [] \<Rightarrow> (w, None) | r # rs \<Rightarrow> (w\<lparr>wait_script := rs\<rparr>, r))"

definition scripted_backoff :: "script backoff" where
  "scripted_backoff =
     \<lparr>new_backoff = (\<lambda>w.
        \<lparr>InitialInterval = 1, Multiplier = 2, MaxInterval = 60, MaxElapsedTime = 900,
         currentInterval = 1, startTime = 0\<rparr>),
      after_failure = (\<lambda>b w err.
        case giveup_script w of
          [] \<Rightarrow> (w, b, Some err)
        | g # gs \<Rightarrow> (w\<lparr>giveup_script := gs\<rparr>, b, if g then Some err else None))\<rparr>"

definition scripted_timer :: "script UpdateTimer" where
  "scripted_timer =
     \<lparr>podUpdateTimeout = 600, podMaxPollingInterval = 30,
      healthChecker_Probe = scripted_Probe, waitUntilAllPodsReadyFunc = scripted_waitReady\<rparr>"

definition crdb :: "32 word \<Rightarrow> StatefulSet" where
  "crdb n = \<lparr>Name = ''crdb'', Namespace = ''db'', Replicas = Some n, RollingUpdate = None\<rparr>"

definition crdb_updateSts :: "32 word \<Rightarrow> (script, unit) UpdateSts" where
  "crdb_updateSts n =
     \<lparr>clientset = scripted_clientset, sts = crdb n, namespace = ''db'', name = ''crdb''\<rparr>"

definition calm :: "32 word \<Rightarrow> script" where
  "calm n =
     \<lparr>verify_script = [], wait_script = [], update_script = [], get_script = [],
      probe_script = [], giveup_script = [], stored = crdb n\<rparr>"

definition start :: "script \<Rightarrow> (script, unit) io" where
  "start w = \<lparr>world = w, trace = []\<rparr>"

definition unready :: go_error where
  "unready = PlainError ''pod not updated''"

definition conflict :: go_error where
  "conflict = StatusError StatusReasonConflict ''the object has been modified''"

definition unhealthy :: go_error where
  "unhealthy = PlainError ''under-replicated ranges''"

definition skip_then_update :: script where
  "skip_then_update = (calm 2)\<lparr>verify_script := [None, Some unready, None]\<rparr>"

definition probe_fails :: script where
  "probe_fails = (calm 2)\<lparr>verify_script := [Some unready, None], probe_script := [Some unhealthy]\<rparr>"

definition update_then_skip :: script where
  "update_then_skip = (calm 2)\<lparr>verify_script := [Some unready, None]\<rparr>"


definition updated_crdb :: "32 word \<Rightarrow> 32 word \<Rightarrow> StatefulSet" where
  "updated_crdb n p = with_partition p (crdb n)"

definition probe_label :: string where
  "probe_label = ''between updating pods for crdb''"

definition hinting_suite :: "(script, unit) updateFunctionSuite" where
  "hinting_suite =
     \<lparr>updateFunc = (\<lambda>w obj. (w, Inr obj)),
      updateStrategyFunc = (\<lambda>u t s. Some (s, Returned True (Some unhealthy)))\<rparr>"

text \<open>A world that is a clock: every call of the verification function takes one unit of
  time and fails.\<close>

definition ticking_verify :: "(timed, unit) verification_func" where
  "ticking_verify w u k = (w\<lparr>clock := clock w + 1\<rparr>, Some unready)"

definition timed_updateSts :: "(timed, unit) UpdateSts" where
  "timed_updateSts =
     \<lparr>clientset = \<lparr>StatefulSets_Get = (\<lambda>w ns nm. (w, Inr (crdb 1))),
                   StatefulSets_Update = (\<lambda>w ns obj. (w, Inr obj))\<rparr>,
      sts = crdb 1, namespace = ''db'', name = ''crdb''\<rparr>"

definition timed_timer :: "timed UpdateTimer" where
  "timed_timer =
     \<lparr>podUpdateTimeout = 3, podMaxPollingInterval = 2,
      healthChecker_Probe = (\<lambda>w label k. (w, None)),
      waitUntilAllPodsReadyFunc = (\<lambda>w. (w, None))\<rparr>"

definition library_defaults :: ExponentialBackOff where
  "library_defaults =
     \<lparr>InitialInterval = 1, Multiplier = 2, MaxInterval = 60, MaxElapsedTime = 900,
      currentInterval = 1, startTime = 0\<rparr>"

section \<open>Evaluation rules\<close>

declare loop.simps [simp del]

lemmas scripted_defs = scripted_verify_def scripted_Get_def scripted_Update_def
  scripted_clientset_def scripted_Probe_def scripted_waitReady_def scripted_backoff_def
  scripted_timer_def crdb_def crdb_updateSts_def start_def calm_def unready_def conflict_def
  unhealthy_def

lemmas step_defs = iteration_def call_verify_def call_waitReady_def call_Update_def call_Get_def
  call_Probe_def log_Debug_def log_Error_def updatePartition_def verifyRefreshProbe_def
  waitUntilPerPodVerificationFuncVerifies_def retry_closure_def RetryOnConflict_def
  handleStsError_def updateSts_now_def set_partition_def cur_sts_def with_partition_def
  init_vars_def io_of_def IsConflict_def IsNotFound_def skip_log_def wait_log_def

lemma backoff_Retry_done:
  assumes "snd (f s) = None"
  shows "backoff_Retry lib b f s = Some (fst (f s), None)"
proof -
  obtain s1 where "f s = (s1, None)" using assms by (cases "f s") auto
  then show ?thesis by (subst backoff_Retry.simps) simp
qed

lemma backoff_Retry_failed:
  assumes "snd (f s) \<noteq> None"
  shows "backoff_Retry lib b f s =
     (let s1 = fst (f s); g = after_failure lib b (world s1) (the (snd (f s)))
      in if snd (snd g) = None then backoff_Retry lib (fst (snd g)) f (s1\<lparr>world := fst g\<rparr>)
         else Some (s1\<lparr>world := fst g\<rparr>, snd (snd g)))"
proof -
  obtain s1 err where f: "f s = (s1, Some err)" using assms by (cases "f s") auto
  obtain w b' g where g: "after_failure lib b (world s1) err = (w, b', g)"
    by (cases "after_failure lib b (world s1) err") auto
  show ?thesis
    by (subst backoff_Retry.simps) (cases g; simp add: f g Let_def)
qed

lemma RetryOnConflict_loop_pos:
  assumes "0 < n"
  shows "RetryOnConflict_loop n fn lastErr s =
     (if snd (fn s) = None then (fst (fn s), None)
      else if IsConflict (the (snd (fn s)))
        then RetryOnConflict_loop (n - 1) fn (snd (fn s)) (fst (fn s))
        else fn s)"
proof -
  obtain m where "n = Suc m" using assms by (cases n) auto
  then show ?thesis by (cases "fn s") (auto split: option.splits)
qed

lemma loop_stop:
  "\<not> 0 \<le>s p \<Longrightarrow>
   loop Steps lib perIteration V updateSts updateTimer v p = Some (v, skipSleep v, None)"
  by (simp add: loop.simps)

lemma loop_step:
  "0 \<le>s p \<Longrightarrow>
   loop Steps lib perIteration V updateSts updateTimer v p =
     (case iteration Steps lib perIteration V updateSts updateTimer v p of
        None \<Rightarrow> None
      | Some (Return v' b e) \<Rightarrow> Some (v', b, e)
      | Some (Continue v') \<Rightarrow> loop Steps lib perIteration V updateSts updateTimer v' (p - 1))"
  by (subst loop.simps) simp

lemmas run_simps = PartitionedRollingUpdateStrategy_def loop_stop loop_step backoff_Retry_done
  backoff_Retry_failed RetryOnConflict_loop_pos scripted_defs step_defs word_sle_eq Let_def

section \<open>The shape of the trace\<close>

lemma verifies_append [simp]: "verifies (xs @ ys) = verifies xs @ verifies ys"
  by (simp add: verifies_def)

lemma writes_append [simp]: "writes (xs @ ys) = writes xs @ writes ys"
  by (simp add: writes_def)

lemma verifies_Nil [simp]: "verifies [] = []"
  by (simp add: verifies_def)

lemma writes_Nil [simp]: "writes [] = []"
  by (simp add: writes_def)

lemma verifies_Cons [simp]: "verifies (ev # evs) = verify_of ev @ verifies evs"
  by (simp add: verifies_def)

lemma writes_Cons [simp]: "writes (ev # evs) = write_of ev @ writes evs"
  by (simp add: writes_def)

lemma marks_append [simp]: "marks (xs @ ys) = marks xs @ marks ys"
  by (simp add: marks_def)

lemma marks_Nil [simp]: "marks [] = []"
  by (simp add: marks_def)

lemma marks_Cons [simp]: "marks (ev # evs) = mark_of ev @ marks evs"
  by (simp add: marks_def)

lemma store_event_verify_of: "store_event ev \<Longrightarrow> verify_of ev = []"
  by (cases ev) auto

lemma store_event_mark_of:
  "store_event ev \<Longrightarrow> mark_of ev = map (\<lambda>w. Inr (map_option sint (fst w))) (write_of ev)"
proof (cases ev)
  case (EvUpdate ns obj r)
  then show ?thesis by (cases r) auto
qed auto

lemma store_only_marks:
  "list_all store_event evs \<Longrightarrow> marks evs = map (\<lambda>w. Inr (map_option sint (fst w))) (writes evs)"
  by (induction evs) (auto simp: store_event_mark_of)

lemma store_event_not_probe: "store_event ev \<Longrightarrow> \<not> failed_probe ev"
  by (cases ev) auto

lemma store_only_verifies: "list_all store_event evs \<Longrightarrow> verifies evs = []"
  by (induction evs) (auto simp: store_event_verify_of)

lemma store_only_probes: "list_all store_event evs \<Longrightarrow> ev \<in> set evs \<Longrightarrow> \<not> failed_probe ev"
  by (auto simp: list_all_iff store_event_not_probe)

lemma cutoff_with_partition [simp]: "cutoff (with_partition p s) = Some p"
  by (simp add: cutoff_def with_partition_def)

lemma Name_with_partition [simp]: "Name (with_partition p s) = Name s"
  by (simp add: with_partition_def)

lemma handleStsError_trace:
  assumes "handleStsError err nm ns s = (s', e)"
  shows "\<exists>msg kvs. s' = s\<lparr>trace := trace s @ [EvLogError err msg kvs]\<rparr>"
  using assms by (auto simp: handleStsError_def log_Error_def split: if_splits go_error.splits)

lemma iteration_writes_Nil [simp]: "iteration_writes p [] False = []"
  by (simp add: iteration_writes_def)

lemma iteration_writes_Cons [simp]:
  "iteration_writes p (e # es) succ = (Some p, Some e) # iteration_writes p es succ"
  by (simp add: iteration_writes_def)

lemma conflicts_first_Cons:
  "IsConflict e \<Longrightarrow> conflicts_first es succ \<Longrightarrow> conflicts_first (e # es) succ"
  by (cases es) (auto simp: conflicts_first_def)

lemma upd_shape_log:
  assumes "upd_shape p xs es False"
  shows "upd_shape p (xs @ [EvLogError e msg kvs]) es False"
  using assms by (auto simp: upd_shape_def)

lemma retry_closure_trace:
  assumes "retry_closure cl ns nm p v = (v', r)"
  shows "\<exists>uevs. trace v' = trace v @ uevs \<and> skipSleep v' = skipSleep v \<and> list_all store_event uevs \<and>
           (case r of None \<Rightarrow> writes uevs = [(Some p, None)]
            | Some e \<Rightarrow> writes uevs = [] \<or> writes uevs = [(Some p, Some e)])"
  using assms
  by (auto simp: retry_closure_def call_Get_def call_Update_def Let_def
           split: prod.splits sum.splits)

lemma RetryOnConflict_loop_trace:
  assumes "RetryOnConflict_loop n (retry_closure cl ns nm p) lastErr v = (v', r)"
  shows "\<exists>uevs es succ. trace v' = trace v @ uevs \<and> skipSleep v' = skipSleep v \<and>
           upd_shape p uevs es succ \<and> (succ \<longrightarrow> r = None) \<and>
           (r = None \<longrightarrow> (succ \<or> (n = 0 \<and> lastErr = None)) \<and> list_all IsConflict es)"
  using assms
proof (induction n arbitrary: lastErr v)
  case 0
  then have "v' = v" "r = lastErr" by auto
  then show ?case
    by (intro exI [of _ "[]"] exI [of _ False])
       (auto simp: upd_shape_def conflicts_first_def)
next
  case (Suc n)
  obtain v1 r1 where fn: "retry_closure cl ns nm p v = (v1, r1)"
    by (cases "retry_closure cl ns nm p v") auto
  from retry_closure_trace [OF fn] obtain xs where xs:
    "trace v1 = trace v @ xs" "skipSleep v1 = skipSleep v" "list_all store_event xs"
    "case r1 of None \<Rightarrow> writes xs = [(Some p, None)]
     | Some e \<Rightarrow> writes xs = [] \<or> writes xs = [(Some p, Some e)]"
    by blast
  show ?case
  proof (cases r1)
    case None
    then have res: "v' = v1" "r = None" using Suc.prems fn by auto
    have "upd_shape p xs [] True"
      using xs(3,4) None by (simp add: upd_shape_def iteration_writes_def conflicts_first_def)
    then show ?thesis using xs res by (intro exI [of _ xs] exI [of _ "[]"] exI [of _ True]) auto
  next
    case (Some err)
    then have w: "writes xs = [] \<or> writes xs = [(Some p, Some err)]" using xs(4) by simp
    show ?thesis
    proof (cases "IsConflict err")
      case True
      then have "RetryOnConflict_loop n (retry_closure cl ns nm p) (Some err) v1 = (v', r)"
        using Suc.prems fn Some by auto
      from Suc.IH [OF this] obtain ys es succ where ys:
        "trace v' = trace v1 @ ys" "skipSleep v' = skipSleep v1" "upd_shape p ys es succ"
        "succ \<longrightarrow> r = None" "r = None \<longrightarrow> succ \<and> list_all IsConflict es"
        by auto
      from w show ?thesis
      proof
        assume "writes xs = []"
        then have "upd_shape p (xs @ ys) es succ"
          using xs(3) ys(3) by (simp add: upd_shape_def)
        then show ?thesis
          using xs ys by (intro exI [of _ "xs @ ys"] exI [of _ es] exI [of _ succ]) auto
      next
        assume "writes xs = [(Some p, Some err)]"
        then have "upd_shape p (xs @ ys) (err # es) succ"
          using xs(3) ys(3) True by (simp add: upd_shape_def conflicts_first_Cons)
        then show ?thesis
          using xs ys True
          by (intro exI [of _ "xs @ ys"] exI [of _ "err # es"] exI [of _ succ]) auto
      qed
    next
      case False
      then have res: "v' = v1" "r = Some err" using Suc.prems fn Some by auto
      from w show ?thesis
      proof
        assume "writes xs = []"
        then have "upd_shape p xs [] False"
          using xs(3) by (simp add: upd_shape_def conflicts_first_def)
        then show ?thesis using xs res by (intro exI [of _ xs] exI [of _ "[]"] exI [of _ False]) auto
      next
        assume "writes xs = [(Some p, Some err)]"
        then have "upd_shape p xs [err] False"
          using xs(3) by (simp add: upd_shape_def conflicts_first_def)
        then show ?thesis
          using xs res by (intro exI [of _ xs] exI [of _ "[err]"] exI [of _ False]) auto
      qed
    qed
  qed
qed


lemma cutoff_cur_set_partition [simp]: "cutoff (cur_sts (set_partition p v)) = Some p"
  by (simp add: cur_sts_def set_partition_def split: option.splits)

lemma Name_cur_set_partition [simp]: "Name (cur_sts (set_partition p v)) = Name (cur_sts v)"
  by (simp add: cur_sts_def set_partition_def split: option.splits)

lemma set_partition_io [simp]:
  "trace (set_partition p v) = trace v" "world (set_partition p v) = world v"
  "skipSleep (set_partition p v) = skipSleep v"
  by (simp_all add: set_partition_def split: option.splits)

lemma updatePartition_trace:
  assumes "updatePartition Steps u nm ns p v = (v', r)"
  shows "\<exists>uevs es succ. trace v' = trace v @ uevs \<and> skipSleep v' = skipSleep v \<and>
           upd_shape p uevs es succ \<and> (succ \<longrightarrow> r = None) \<and>
           (r = None \<longrightarrow> (succ \<or> Steps = 0) \<and> list_all IsConflict es)"
proof -
  define v1 where "v1 = set_partition p v"
  obtain v2 r0 where upd: "call_Update (clientset u) ns (cur_sts v1) v1 = (v2, r0)"
    by (cases "call_Update (clientset u) ns (cur_sts v1) v1") auto
  then have v2: "trace v2 = trace v @ [EvUpdate ns (cur_sts v1) r0]" "skipSleep v2 = skipSleep v"
    by (auto simp: call_Update_def v1_def split: prod.splits)
  have c: "cutoff (cur_sts v1) = Some p" by (simp add: v1_def)
  show ?thesis
  proof (cases r0)
    case (Inr updated)
    then have res: "v' = v2" "r = None"
      using assms upd by (auto simp: updatePartition_def v1_def Let_def)
    have "upd_shape p [EvUpdate ns (cur_sts v1) r0] [] True"
      using Inr c by (simp add: upd_shape_def iteration_writes_def conflicts_first_def)
    then show ?thesis
      using v2 res
      by (intro exI [of _ "[EvUpdate ns (cur_sts v1) r0]"] exI [of _ "[]"] exI [of _ True]) auto
  next
    case (Inl err)
    have one: "list_all store_event [EvUpdate ns (cur_sts v1) r0]"
      "writes [EvUpdate ns (cur_sts v1) r0] = [(Some p, Some err)]"
      using Inl c by auto
    show ?thesis
    proof (cases "IsConflict err")
      case False
      obtain v3 e where h: "handleStsError err nm ns v2 = (v3, e)"
        by (cases "handleStsError err nm ns v2") auto
      then have res: "v' = v3" "r = Some e"
        using assms upd Inl False by (auto simp: updatePartition_def v1_def Let_def)
      from handleStsError_trace [OF h] obtain msg kvs where
        v3: "v3 = v2\<lparr>trace := trace v2 @ [EvLogError err msg kvs]\<rparr>" by blast
      have "upd_shape p ([EvUpdate ns (cur_sts v1) r0] @ [EvLogError err msg kvs]) [err] False"
        using one by (simp add: upd_shape_def conflicts_first_def)
      then show ?thesis
        using v2 v3 res
        by (intro exI [of _ "[EvUpdate ns (cur_sts v1) r0] @ [EvLogError err msg kvs]"]
              exI [of _ "[err]"] exI [of _ False])
          auto
    next
      case True
      obtain v3 r3 where rt: "RetryOnConflict_loop Steps
          (retry_closure (clientset u) ns (Name (cur_sts v2)) p) None v2 = (v3, r3)"
        by (cases "RetryOnConflict_loop Steps
          (retry_closure (clientset u) ns (Name (cur_sts v2)) p) None v2") auto
      from RetryOnConflict_loop_trace [OF rt] obtain ys es succ where ys:
        "trace v3 = trace v2 @ ys" "skipSleep v3 = skipSleep v2" "upd_shape p ys es succ"
        "succ \<longrightarrow> r3 = None" "r3 = None \<longrightarrow> (succ \<or> Steps = 0) \<and> list_all IsConflict es"
        by auto
      have sh: "upd_shape p ([EvUpdate ns (cur_sts v1) r0] @ ys) (err # es) succ"
        using one ys(3) True by (simp add: upd_shape_def conflicts_first_Cons)
      show ?thesis
      proof (cases r3)
        case None
        then have res: "v' = v3" "r = None"
          using assms upd Inl True rt
          by (auto simp: updatePartition_def v1_def Let_def RetryOnConflict_def)
        then show ?thesis
          using v2 ys sh None True
          by (intro exI [of _ "[EvUpdate ns (cur_sts v1) r0] @ ys"] exI [of _ "err # es"]
                exI [of _ succ]) auto
      next
        case (Some err')
        obtain v4 e where h: "handleStsError err' nm ns v3 = (v4, e)"
          by (cases "handleStsError err' nm ns v3") auto
        then have res: "v' = v4" "r = Some e"
          using assms upd Inl True rt Some
          by (auto simp: updatePartition_def v1_def Let_def RetryOnConflict_def)
        from handleStsError_trace [OF h] obtain msg kvs where
          v4: "v4 = v3\<lparr>trace := trace v3 @ [EvLogError err' msg kvs]\<rparr>" by blast
        have "\<not> succ" using ys(4) Some by auto
        then have "upd_shape p (([EvUpdate ns (cur_sts v1) r0] @ ys) @ [EvLogError err' msg kvs])
                     (err # es) False"
          using sh upd_shape_log by metis
        then show ?thesis
          using v2 ys v4 res
          by (intro exI [of _ "([EvUpdate ns (cur_sts v1) r0] @ ys) @ [EvLogError err' msg kvs]"]
                exI [of _ "err # es"] exI [of _ False]) auto
      qed
    qed
  qed
qed

lemma backoff_Retry_trace:
  assumes run: "backoff_Retry lib0 b0 (call_verify InPoller V u k) v0 = Some y0"
  shows "\<exists>rs. trace (fst y0) = trace v0 @ map (EvVerify InPoller k) rs \<and> rs \<noteq> [] \<and>
           skipSleep (fst y0) = skipSleep (v0 :: ('w, 'm) vars) \<and> (snd y0 = None \<longrightarrow> last rs = None)"
proof -
  let ?P = "\<lambda>(lib :: 'w backoff) (b :: ExponentialBackOff)
       (f :: ('w, 'm) vars \<Rightarrow> ('w, 'm) vars \<times> go_error option) v y.
     f = call_verify InPoller V u k \<longrightarrow>
       (\<exists>rs. trace (fst y) = trace v @ map (EvVerify InPoller k) rs \<and> rs \<noteq> [] \<and>
           skipSleep (fst y) = skipSleep v \<and> (snd y = None \<longrightarrow> last rs = None))"
  have "?P lib0 b0 (call_verify InPoller V u k) v0 y0"
  proof (rule backoff_Retry.raw_induct [where P = ?P, OF _ run])
    fix retry lib b f v y
    assume IH: "\<And>lib b f v y. retry lib b f v = Some y \<Longrightarrow> ?P lib b f v y"
      and eq: "(case f v of
                  (s1, None) \<Rightarrow> Some (s1, None)
                | (s1, Some err) \<Rightarrow>
                    (case after_failure lib b (world s1) err of
                       (w, b', None) \<Rightarrow> retry lib b' f (s1\<lparr>world := w\<rparr>)
                     | (w, b', Some err') \<Rightarrow> Some (s1\<lparr>world := w\<rparr>, Some err'))) = Some y"
    show "?P lib b f v y"
    proof
      assume fdef: "f = call_verify InPoller V u k"
      obtain w r where V: "V (world v) u k = (w, r)" by (cases "V (world v) u k") auto
      define v1 where "v1 = v\<lparr>world := w, trace := trace v @ [EvVerify InPoller k r]\<rparr>"
      have fv: "f v = (v1, r)" using fdef V by (simp add: call_verify_def v1_def)
      show "\<exists>rs. trace (fst y) = trace v @ map (EvVerify InPoller k) rs \<and> rs \<noteq> [] \<and>
             skipSleep (fst y) = skipSleep v \<and> (snd y = None \<longrightarrow> last rs = None)"
      proof (cases r)
        case None
        then have "y = (v1, None)" using eq fv by simp
        then show ?thesis using None by (intro exI [of _ "[None]"]) (simp add: v1_def)
      next
        case (Some err)
        obtain w2 b2 g where g: "after_failure lib b (world v1) err = (w2, b2, g)"
          by (cases "after_failure lib b (world v1) err") auto
        show ?thesis
        proof (cases g)
          case (Some err')
          then have "y = (v1\<lparr>world := w2\<rparr>, Some err')" using eq fv g \<open>r = Some err\<close> by simp
          then show ?thesis by (intro exI [of _ "[r]"]) (simp add: v1_def)
        next
          case None
          then have "retry lib b2 f (v1\<lparr>world := w2\<rparr>) = Some y"
            using eq fv g \<open>r = Some err\<close> by simp
          from IH [OF this, THEN mp, OF fdef] obtain rs where rs:
            "trace (fst y) = trace (v1\<lparr>world := w2\<rparr>) @ map (EvVerify InPoller k) rs" "rs \<noteq> []"
            "skipSleep (fst y) = skipSleep (v1\<lparr>world := w2\<rparr>)" "snd y = None \<longrightarrow> last rs = None"
            by (elim exE conjE)
          have "trace (fst y) = trace v @ map (EvVerify InPoller k) (r # rs)"
            using rs(1) by (simp add: v1_def)
          moreover have "skipSleep (fst y) = skipSleep v"
            using rs(3) by (simp add: v1_def)
          moreover have "snd y = None \<longrightarrow> last (r # rs) = None"
            using rs(2,4) by simp
          ultimately show ?thesis by (intro exI [of _ "r # rs"]) simp
        qed
      qed
    qed
  qed
  then show ?thesis by (rule mp) (rule refl)
qed

lemma poller_trace:
  assumes "waitUntilPerPodVerificationFuncVerifies lib u V k t v = Some (v', r)"
  shows "\<exists>rs. trace v' = trace v @ map (EvVerify InPoller k) rs \<and> rs \<noteq> [] \<and>
           skipSleep v' = skipSleep (v :: ('w, 'm) vars) \<and> (r = None \<longrightarrow> last rs = None)"
  using backoff_Retry_trace [of lib _ V u k v "(v', r)"] assms
  by (simp add: waitUntilPerPodVerificationFuncVerifies_def Let_def)


lemma verifyRefreshProbe_cases [consumes 1, case_names poll_failed get_failed probe_failed completed]:
  assumes run: "verifyRefreshProbe lib perIteration V u t nm ns p v = Some fl"
  obtains
    (poll_failed) v' rs e where
      "fl = Return v' False (Some (Wrapf e ''error while running verificationFunc on pod %d'' [IntVal (sint p)]))"
      "trace v' = trace v @ EvLogDebug ''waiting until partition done updating''
                    [(''partition number:'', IntVal (sint p))] # map (EvVerify InPoller (sint p)) rs"
      "rs \<noteq> []"
  | (get_failed) v' rs ge e msg kvs where
      "fl = Return v' False (Some e)"
      "trace v' = trace v @ EvLogDebug ''waiting until partition done updating''
                    [(''partition number:'', IntVal (sint p))] # map (EvVerify InPoller (sint p)) rs
                  @ [EvGet ns nm (Inl ge), EvLogError ge msg kvs]"
      "rs \<noteq> []" "last rs = None"
  | (probe_failed) v' rs fetched e where
      "fl = Return v' (skipSleep v) (Some e)"
      "trace v' = trace v @ EvLogDebug ''waiting until partition done updating''
                    [(''partition number:'', IntVal (sint p))] # map (EvVerify InPoller (sint p)) rs
                  @ [EvGet ns nm (Inr fetched), EvProbe (''between updating pods for '' @ nm) (sint p) (Some e)]"
      "rs \<noteq> []" "last rs = None"
  | (completed) v' rs fetched where
      "fl = Continue v'" "skipSleep v' = skipSleep v"
      "trace v' = trace v @ EvLogDebug ''waiting until partition done updating''
                    [(''partition number:'', IntVal (sint p))] # map (EvVerify InPoller (sint p)) rs
                  @ [EvGet ns nm (Inr fetched), EvProbe (''between updating pods for '' @ nm) (sint p) None]"
      "rs \<noteq> []" "last rs = None"
proof -
  define lg :: "'b event" where "lg = EvLogDebug ''waiting until partition done updating''
                    [(''partition number:'', IntVal (sint p))]"
  define label where "label = ''between updating pods for '' @ nm"
  define v1 where "v1 = log_Debug ''waiting until partition done updating''
                 [(''partition number:'', IntVal (sint p))] v"
  note unf = verifyRefreshProbe_def Let_def v1_def [symmetric] label_def [symmetric]
  have v1: "trace v1 = trace v @ [lg]" "skipSleep v1 = skipSleep v"
    by (simp_all add: v1_def log_Debug_def lg_def)
  obtain v2 r2 where poll: "waitUntilPerPodVerificationFuncVerifies lib
        (updateSts_now perIteration u v1 p) V (sint p) t v1 = Some (v2, r2)"
    using run unfolding unf
    by (cases "waitUntilPerPodVerificationFuncVerifies lib
        (updateSts_now perIteration u v1 p) V (sint p) t v1") auto
  from poller_trace [OF poll] obtain rs where rs:
    "trace v2 = trace v1 @ map (EvVerify InPoller (sint p)) rs" "rs \<noteq> []"
    "skipSleep v2 = skipSleep v1" "r2 = None \<longrightarrow> last rs = None"
    by (elim exE conjE)
  have t2: "trace v2 = trace v @ lg # map (EvVerify InPoller (sint p)) rs"
    using rs(1) v1(1) by simp
  show thesis
  proof (cases r2)
    case (Some err)
    then have "fl = Return v2 False
        (Some (Wrapf err ''error while running verificationFunc on pod %d'' [IntVal (sint p)]))"
      using run poll unfolding unf by simp
    then show thesis using t2 rs(2) unfolding lg_def by (rule poll_failed)
  next
    case None
    then have last: "last rs = None" using rs(4) by simp
    obtain v3 r3 where get: "call_Get (clientset u) ns nm v2 = (v3, r3)"
      by (cases "call_Get (clientset u) ns nm v2") auto
    then have v3: "trace v3 = trace v2 @ [EvGet ns nm r3]" "skipSleep v3 = skipSleep v2"
      by (auto simp: call_Get_def split: prod.splits)
    show thesis
    proof (cases r3)
      case (Inl ge)
      obtain v4 e where h: "handleStsError ge nm ns v3 = (v4, e)"
        by (cases "handleStsError ge nm ns v3") auto
      from handleStsError_trace [OF h] obtain msg kvs where
        v4: "v4 = v3\<lparr>trace := trace v3 @ [EvLogError ge msg kvs]\<rparr>" by blast
      have "fl = Return v4 False (Some e)"
        using run poll None get Inl h unfolding unf
        by simp
      moreover have "trace v4 = trace v @ lg # map (EvVerify InPoller (sint p)) rs
                  @ [EvGet ns nm (Inl ge), EvLogError ge msg kvs]"
        using v4 v3 t2 Inl by simp
      ultimately show thesis using rs(2) last unfolding lg_def by (rule get_failed)
    next
      case (Inr fetched)
      obtain v5 r5 where pr: "call_Probe t label (sint p) (v3\<lparr>local_sts := Some fetched\<rparr>) = (v5, r5)"
        by (cases "call_Probe t label (sint p) (v3\<lparr>local_sts := Some fetched\<rparr>)") auto
      then have v5: "trace v5 = trace v3 @ [EvProbe label (sint p) r5]"
        "skipSleep v5 = skipSleep v3"
        by (auto simp: call_Probe_def split: prod.splits)
      have t5: "trace v5 = trace v @ lg # map (EvVerify InPoller (sint p)) rs
                  @ [EvGet ns nm (Inr fetched), EvProbe label (sint p) r5]"
        using v5 v3 t2 Inr by simp
      have s5: "skipSleep v5 = skipSleep v"
        using v5 v3 rs(3) v1(2) by simp
      show thesis
      proof (cases r5)
        case (Some e)
        have "fl = Return v5 (skipSleep v) (Some e)"
          using run poll None get Inr pr Some s5
          unfolding unf
          by simp
        then show thesis using t5 rs(2) last unfolding lg_def Some label_def by (rule probe_failed)
      next
        case None
        have "fl = Continue v5"
          using run poll \<open>r2 = None\<close> get Inr pr None
          unfolding unf
          by simp
        then show thesis using s5 t5 rs(2) last unfolding lg_def None label_def by (rule completed)
      qed
    qed
  qed
qed


lemma iteration_cases [consumes 1, case_names skipped wait_failed update_failed poll_failed
    get_failed probe_failed completed]:
  assumes run: "iteration Steps lib perIteration V u t v p = Some fl"
  obtains
    (skipped) v' where
      "fl = Continue v'" "skipSleep v'" "trace v' = trace v @ [EvVerify AtLoopStart (sint p) None, skip_log p]"
  | (wait_failed) v' e0 e where
      "fl = Return v' False (Some (Wrapf e ''error while waiting for all pods to be ready'' []))"
      "trace v' = trace v @ [EvVerify AtLoopStart (sint p) (Some e0), EvWaitReady (Some e)]"
  | (update_failed) v' e0 uevs es e where
      "fl = Return v' False (Some e)"
      "trace v' = trace v @ [EvVerify AtLoopStart (sint p) (Some e0), EvWaitReady None] @ uevs"
      "upd_shape p uevs es False"
  | (poll_failed) v' e0 uevs es succ rs e where
      "fl = Return v' False (Some e)"
      "trace v' = trace v @ mutated p e0 uevs rs"
      "upd_shape p uevs es succ" "0 < Steps \<longrightarrow> succ" "rs \<noteq> []"
  | (get_failed) v' e0 uevs es succ rs ge e msg kvs where
      "fl = Return v' False (Some e)"
      "trace v' = trace v @ mutated p e0 uevs rs
                  @ [EvGet (Namespace (cur_sts v)) (Name (cur_sts v)) (Inl ge), EvLogError ge msg kvs]"
      "upd_shape p uevs es succ" "0 < Steps \<longrightarrow> succ" "rs \<noteq> []" "last rs = None"
  | (probe_failed) v' e0 uevs es succ rs fetched e where
      "fl = Return v' False (Some e)"
      "trace v' = trace v @ mutated p e0 uevs rs
                  @ [EvGet (Namespace (cur_sts v)) (Name (cur_sts v)) (Inr fetched),
                     EvProbe (''between updating pods for '' @ Name (cur_sts v)) (sint p) (Some e)]"
      "upd_shape p uevs es succ" "0 < Steps \<longrightarrow> succ" "rs \<noteq> []" "last rs = None"
  | (completed) v' e0 uevs es succ rs fetched where
      "fl = Continue v'" "\<not> skipSleep v'"
      "trace v' = trace v @ mutated p e0 uevs rs
                  @ [EvGet (Namespace (cur_sts v)) (Name (cur_sts v)) (Inr fetched),
                     EvProbe (''between updating pods for '' @ Name (cur_sts v)) (sint p) None]"
      "upd_shape p uevs es succ" "0 < Steps \<longrightarrow> succ" "rs \<noteq> []" "last rs = None"
      "list_all IsConflict es"
proof -
  define nm where "nm = Name (cur_sts v)"
  define ns where "ns = Namespace (cur_sts v)"
  define us where "us = updateSts_now perIteration u v p"
  note unf = iteration_def Let_def nm_def [symmetric] ns_def [symmetric] us_def [symmetric]
  obtain v1 r0 where cv: "call_verify AtLoopStart V us (sint p) v = (v1, r0)"
    by (cases "call_verify AtLoopStart V us (sint p) v") auto
  then have v1: "trace v1 = trace v @ [EvVerify AtLoopStart (sint p) r0]"
    by (auto simp: call_verify_def split: prod.splits)
  show thesis
  proof (cases r0)
    case None
    define v' where "v' = (log_Debug ''already updated, skipping sleep''
        [(''partition'', IntVal (sint p))] v1)\<lparr>skipSleep := True\<rparr>"
    have "fl = Continue v'"
      using run cv None unfolding unf v'_def by simp
    moreover have "skipSleep v'" by (simp add: v'_def)
    moreover have "trace v' = trace v @ [EvVerify AtLoopStart (sint p) None, skip_log p]"
      using v1 None by (simp add: v'_def log_Debug_def skip_log_def)
    ultimately show thesis by (rule skipped)
  next
    case (Some e0)
    obtain v3 r3 where cw: "call_waitReady t (v1\<lparr>skipSleep := False\<rparr>) = (v3, r3)"
      by (cases "call_waitReady t (v1\<lparr>skipSleep := False\<rparr>)") auto
    then have v3: "trace v3 = trace v @ [EvVerify AtLoopStart (sint p) (Some e0), EvWaitReady r3]"
      "\<not> skipSleep v3"
      using v1 Some by (auto simp: call_waitReady_def split: prod.splits)
    show thesis
    proof (cases r3)
      case (Some e)
      have "fl = Return v3 False (Some (Wrapf e ''error while waiting for all pods to be ready'' []))"
        using run cv \<open>r0 = Some e0\<close> cw Some unfolding unf by simp
      then show thesis using v3(1) unfolding Some by (rule wait_failed)
    next
      case None
      obtain v4 r4 where up: "updatePartition Steps u nm ns p v3 = (v4, r4)"
        by (cases "updatePartition Steps u nm ns p v3") auto
      from updatePartition_trace [OF up] obtain uevs es succ where uevs:
        "trace v4 = trace v3 @ uevs" "skipSleep v4 = skipSleep v3" "upd_shape p uevs es succ"
        "succ \<longrightarrow> r4 = None" "r4 = None \<longrightarrow> (succ \<or> Steps = 0) \<and> list_all IsConflict es"
        by (elim exE conjE)
      have t4: "trace v4 = trace v @ [EvVerify AtLoopStart (sint p) (Some e0), EvWaitReady None] @ uevs"
        using uevs(1) v3(1) None by simp
      show thesis
      proof (cases r4)
        case (Some e)
        then have "\<not> succ" using uevs(4) by auto
        have "fl = Return v4 False (Some e)"
          using run cv \<open>r0 = Some e0\<close> cw None up Some unfolding unf by simp
        then show thesis using t4 uevs(3) unfolding \<open>\<not> succ\<close> [THEN eq_False [THEN iffD2]]
          by (rule update_failed)
      next
        case None
        then have st: "0 < Steps \<longrightarrow> succ" and cf: "list_all IsConflict es" using uevs(5) by auto
        have rest: "verifyRefreshProbe lib perIteration V u t nm ns p v4 = Some fl"
          using run cv \<open>r0 = Some e0\<close> cw \<open>r3 = None\<close> up None unfolding unf by simp
        have ns4: "\<not> skipSleep v4" using uevs(2) v3(2) by simp
        from rest show thesis
        proof (cases rule: verifyRefreshProbe_cases)
          case (poll_failed v' rs e)
          have "trace v' = trace v @ mutated p e0 uevs rs"
            using poll_failed(2) t4 by (simp add: mutated_def wait_log_def)
          with poll_failed(1) show thesis
            using uevs(3) st poll_failed(3) by (rule that(4))
        next
          case (get_failed v' rs ge e msg kvs)
          have "trace v' = trace v @ mutated p e0 uevs rs
                  @ [EvGet (Namespace (cur_sts v)) (Name (cur_sts v)) (Inl ge), EvLogError ge msg kvs]"
            using get_failed(2) t4 by (simp add: mutated_def wait_log_def nm_def ns_def)
          with get_failed(1) show thesis
            using uevs(3) st get_failed(3,4) by (rule that(5))
        next
          case (probe_failed v' rs fetched e)
          have "trace v' = trace v @ mutated p e0 uevs rs
                  @ [EvGet (Namespace (cur_sts v)) (Name (cur_sts v)) (Inr fetched),
                     EvProbe (''between updating pods for '' @ Name (cur_sts v)) (sint p) (Some e)]"
            using probe_failed(2) t4 by (simp add: mutated_def wait_log_def nm_def ns_def)
          moreover have "fl = Return v' False (Some e)"
            using probe_failed(1) ns4 by simp
          ultimately show thesis
            using uevs(3) st probe_failed(3,4) by (intro that(6)) auto
        next
          case (completed v' rs fetched)
          have "trace v' = trace v @ mutated p e0 uevs rs
                  @ [EvGet (Namespace (cur_sts v)) (Name (cur_sts v)) (Inr fetched),
                     EvProbe (''between updating pods for '' @ Name (cur_sts v)) (sint p) None]"
            using completed(3) t4 by (simp add: mutated_def wait_log_def nm_def ns_def)
          moreover have "\<not> skipSleep v'" using completed(2) ns4 by simp
          ultimately show thesis
            using completed(1) uevs(3) st completed(4,5) cf by (intro that(7)) auto
        qed
      qed
    qed
  qed
qed

section \<open>The shape of a run\<close>

lemma sint_pred: "0 \<le> sint (p :: 32 word) \<Longrightarrow> sint (p - 1) = sint p - 1"
  using sint_range_size [of p]
  by (simp add: sint_word_ariths signed_take_bit_int_eq_self_iff word_size)

lemma rev_upto_Cons: "0 \<le> k \<Longrightarrow> rev [0..k] = k # rev [0..k - 1]"
  by (simp add: upto_rec2)

lemma verifies_mutated:
  assumes "upd_shape p uevs es succ"
  shows "verifies (mutated p e0 uevs rs) = [(sint p, Some e0)]"
proof -
  have "verifies uevs = []"
    using assms by (simp add: upd_shape_def store_only_verifies)
  moreover have "verifies (map (EvVerify InPoller (sint p)) rs) = []"
    by (induction rs) auto
  ultimately show ?thesis by (simp add: mutated_def wait_log_def)
qed

lemma writes_mutated: "writes (mutated p e0 uevs rs) = writes uevs"
proof -
  have "writes (map (EvVerify InPoller (sint p)) rs) = []"
    by (induction rs) auto
  then show ?thesis by (simp add: mutated_def wait_log_def)
qed

lemma marks_mutated:
  assumes "upd_shape p uevs es succ"
  shows "marks (mutated p e0 uevs rs)
           = Inl (sint p) # map (\<lambda>w. Inr (map_option sint (fst w))) (writes uevs)"
proof -
  have "marks (map (EvVerify InPoller (sint p)) rs) = []"
    by (induction rs) auto
  moreover have "marks uevs = map (\<lambda>w. Inr (map_option sint (fst w))) (writes uevs)"
    using assms by (simp add: upd_shape_def store_only_marks)
  ultimately show ?thesis by (simp add: mutated_def wait_log_def)
qed

lemma no_probe_mutated:
  assumes "upd_shape p uevs es succ" and "ev \<in> set (mutated p e0 uevs rs)"
  shows "\<not> failed_probe ev"
  using assms store_only_probes [of uevs ev]
  by (auto simp: mutated_def wait_log_def upd_shape_def)

lemma iter_events_skipped:
  "iter_events p None [] False [EvVerify AtLoopStart (sint p) None, skip_log p]"
  by (simp add: iter_events_def skip_log_def conflicts_first_def)

lemma iter_events_wait:
  "iter_events p (Some e0) [] False [EvVerify AtLoopStart (sint p) (Some e0), EvWaitReady r]"
  by (simp add: iter_events_def conflicts_first_def)

lemma iter_events_update:
  assumes "upd_shape p uevs es succ"
  shows "iter_events p (Some e0) es succ
           ([EvVerify AtLoopStart (sint p) (Some e0), EvWaitReady None] @ uevs)"
proof -
  have "verifies uevs = []"
    using assms by (simp add: upd_shape_def store_only_verifies)
  moreover have "marks uevs = map (\<lambda>w. Inr (map_option sint (fst w))) (writes uevs)"
    using assms by (simp add: upd_shape_def store_only_marks)
  ultimately show ?thesis
    using assms by (simp add: iter_events_def upd_shape_def)
qed

lemma iter_events_mutated:
  assumes "upd_shape p uevs es succ" and "verifies rest = []" and "writes rest = []"
    and "marks rest = []"
  shows "iter_events p (Some e0) es succ (mutated p e0 uevs rs @ rest)"
  using assms verifies_mutated [OF assms(1), of e0 rs] writes_mutated [of p e0 uevs rs]
    marks_mutated [OF assms(1), of e0 rs]
  by (simp add: iter_events_def upd_shape_def)

lemma visited_iter:
  assumes "iter_events p r0 es succ xs"
  shows "visited (xs @ ys) = sint p # visited ys"
  using assms by (simp add: iter_events_def visited_def)

lemma idempotence_iter:
  assumes "iter_events p r0 es succ xs"
  shows "idempotence_check (xs @ ys) k = (if k = sint p then Some r0 else idempotence_check ys k)"
  using assms by (simp add: iter_events_def idempotence_check_def)

lemma sent_iter:
  assumes "iter_events p r0 es succ xs"
  shows "sent_ordinals (xs @ ys)
           = replicate (length es + (if succ then 1 else 0)) (Some (sint p)) @ sent_ordinals ys"
  using assms
  by (auto simp: iter_events_def sent_ordinals_def iteration_writes_def replicate_append_same
        map_replicate_const comp_def)

lemma persisted_iter:
  assumes "iter_events p r0 es succ xs"
  shows "persisted_ordinals (xs @ ys)
           = (if succ then [Some (sint p)] else []) @ persisted_ordinals ys"
  using assms
  by (auto simp: iter_events_def persisted_ordinals_def iteration_writes_def filter_map comp_def)


lemma no_probe_mutated_all:
  assumes "upd_shape p uevs es succ"
  shows "list_all (\<lambda>ev. \<not> failed_probe ev) (mutated p e0 uevs rs)"
  using no_probe_mutated [OF assms] by (auto simp: list_all_iff)

lemma no_probe_upd:
  assumes "upd_shape p uevs es succ"
  shows "list_all (\<lambda>ev. \<not> failed_probe ev) uevs"
  using assms store_only_probes [of uevs] by (auto simp: list_all_iff upd_shape_def)

lemma loop_shape:
  "loop Steps lib perIteration V u t v p = Some (v', b, e) \<Longrightarrow>
   \<exists>evs. trace v' = trace v @ evs \<and> run_shape Steps p (skipSleep v) evs b e"
proof (induction Steps lib perIteration V u t v p rule: loop.induct)
  case (1 Steps lib perIteration V u t v p)
  show ?case
  proof (cases "0 \<le>s p")
    case False
    then have "v' = v" "b = skipSleep v" "e = None"
      using "1.prems" by (auto simp: loop_stop)
    then show ?thesis
      using run_shape.finished [OF False] by (intro exI [of _ "[]"]) simp
  next
    case True
    then obtain fl where it: "iteration Steps lib perIteration V u t v p = Some fl"
      using "1.prems" by (cases "iteration Steps lib perIteration V u t v p") (auto simp: loop_step)
    have ret: "fl = Return w b' e' \<Longrightarrow> v' = w \<and> b = b' \<and> e = e'" for w b' e'
      using "1.prems" True it by (simp add: loop_step)
    have cont: "fl = Continue w \<Longrightarrow>
        \<exists>evs. trace v' = trace w @ evs \<and> run_shape Steps (p - 1) (skipSleep w) evs b e" for w
      using "1.IH" [OF True it, of w] "1.prems" True it by (simp add: loop_step)
    have abort: "\<exists>evs. trace v' = trace v @ evs \<and> run_shape Steps p (skipSleep v) evs b e"
      if "fl = Return w False (Some err)" "trace w = trace v @ xs" "iter_events p (Some e0) es succ xs"
         "list_all (\<lambda>ev. \<not> failed_probe ev) xs" for w err xs e0 es succ
      using ret [OF that(1)] that(2) run_shape.aborted [OF True that(3,4)]
      by (intro exI [of _ xs]) simp
    from it show ?thesis
    proof (cases rule: iteration_cases)
      case (skipped w)
      from cont [OF skipped(1)] obtain evs where
        evs: "trace v' = trace w @ evs" "run_shape Steps (p - 1) (None = (None :: go_error option)) evs b e"
        using skipped(2) by auto
      have "run_shape Steps p (skipSleep v) ([EvVerify AtLoopStart (sint p) None, skip_log p] @ evs) b e"
        by (rule run_shape.continued [OF True iter_events_skipped _ _ _ evs(2)])
          (simp_all add: skip_log_def)
      then show ?thesis
        using evs(1) skipped(3)
        by (intro exI [of _ "[EvVerify AtLoopStart (sint p) None, skip_log p] @ evs"]) simp
    next
      case (wait_failed w e0 werr)
      show ?thesis
        by (rule abort [OF wait_failed(1,2) iter_events_wait]) simp
    next
      case (update_failed w e0 uevs es err)
      from iter_events_update [OF update_failed(3), of e0]
      have "iter_events p (Some e0) es False
              ([EvVerify AtLoopStart (sint p) (Some e0), EvWaitReady None] @ uevs)" .
      then show ?thesis
        using no_probe_upd [OF update_failed(3)]
        by (intro abort [OF update_failed(1,2)]) simp_all
    next
      case (poll_failed w e0 uevs es succ rs err)
      from iter_events_mutated [OF poll_failed(3), of "[]" e0 rs]
      have "iter_events p (Some e0) es succ (mutated p e0 uevs rs)" by auto
      then show ?thesis
        using no_probe_mutated_all [OF poll_failed(3)]
        by (intro abort [OF poll_failed(1,2)]) simp_all
    next
      case (get_failed w e0 uevs es succ rs ge err msg kvs)
      let ?rest = "[EvGet (Namespace (cur_sts v)) (Name (cur_sts v)) (Inl ge), EvLogError ge msg kvs]"
      from iter_events_mutated [OF get_failed(3), of ?rest e0 rs]
      have "iter_events p (Some e0) es succ (mutated p e0 uevs rs @ ?rest)" by auto
      then show ?thesis
        using no_probe_mutated_all [OF get_failed(3)]
        by (intro abort [OF get_failed(1,2)]) simp_all
    next
      case (probe_failed w e0 uevs es succ rs fetched err)
      let ?rest = "[EvGet (Namespace (cur_sts v)) (Name (cur_sts v)) (Inr fetched)]"
      from iter_events_mutated [OF probe_failed(3), of ?rest e0 rs]
      have j: "iter_events p (Some e0) es succ (mutated p e0 uevs rs @ ?rest)" by auto
      have "run_shape Steps p (skipSleep v)
              ((mutated p e0 uevs rs @ ?rest)
                @ [EvProbe (''between updating pods for '' @ Name (cur_sts v)) (sint p) (Some err)])
              False (Some err)"
        using no_probe_mutated_all [OF probe_failed(3)]
        by (intro run_shape.probe_aborted [OF True j]) simp
      then show ?thesis
        using ret [OF probe_failed(1)] probe_failed(2)
        by (intro exI [of _ "(mutated p e0 uevs rs @ ?rest)
                @ [EvProbe (''between updating pods for '' @ Name (cur_sts v)) (sint p) (Some err)]"])
          simp
    next
      case (completed w e0 uevs es succ rs fetched)
      let ?rest = "[EvGet (Namespace (cur_sts v)) (Name (cur_sts v)) (Inr fetched),
                    EvProbe (''between updating pods for '' @ Name (cur_sts v)) (sint p) None]"
      from cont [OF completed(1)] obtain evs where
        evs: "trace v' = trace w @ evs" "run_shape Steps (p - 1) (Some e0 = None) evs b e"
        using completed(2) by auto
      from iter_events_mutated [OF completed(4), of ?rest e0 rs]
      have j: "iter_events p (Some e0) es succ (mutated p e0 uevs rs @ ?rest)" by auto
      have "run_shape Steps p (skipSleep v) ((mutated p e0 uevs rs @ ?rest) @ evs) b e"
        using no_probe_mutated_all [OF completed(4)] completed(5,8)
        by (intro run_shape.continued [OF True j _ _ _ evs(2)]) simp_all
      then show ?thesis
        using evs(1) completed(3)
        by (intro exI [of _ "(mutated p e0 uevs rs @ ?rest) @ evs"]) simp
    qed
  qed
qed


lemma sle_sint: "(0 \<le>s (p :: 32 word)) = (0 \<le> sint p)"
  by (simp add: word_sle_eq)

lemma run_visited:
  "run_shape Steps p skip0 evs b e \<Longrightarrow>
   prefix (visited evs) (rev [0..sint p]) \<and> (e = None \<longrightarrow> visited evs = rev [0..sint p])"
proof (induction rule: run_shape.induct)
  case (finished p skip0)
  then show ?case by (simp add: sle_sint visited_def)
next
  case (continued p r0 es succ xs evs b e skip0)
  have k: "0 \<le> sint p" using continued(1) by (simp add: sle_sint)
  have pre: "prefix (visited evs) (rev [0..sint p - 1])"
    using continued.IH k by (simp add: sint_pred)
  from visited_iter [OF continued(2), of evs] show ?case
    using continued.IH k pre by (simp add: rev_upto_Cons sint_pred)
next
  case (aborted p e0 es succ xs skip0 err)
  have k: "0 \<le> sint p" using aborted(1) by (simp add: sle_sint)
  from visited_iter [OF aborted(2), of "[]"] show ?case
    using k by (simp add: rev_upto_Cons visited_def)
next
  case (probe_aborted p e0 es succ xs skip0 label err)
  have k: "0 \<le> sint p" using probe_aborted(1) by (simp add: sle_sint)
  from visited_iter [OF probe_aborted(2), of "[EvProbe label (sint p) (Some err)]"] show ?case
    using k by (simp add: rev_upto_Cons visited_def)
qed

lemma sorted_wrt_replicate_ge: "sorted_wrt (\<ge>) (replicate n (k :: int))"
  by (induction n) auto

lemma run_sent:
  "run_shape Steps p skip0 evs b e \<Longrightarrow>
   \<exists>ks. sent_ordinals evs = map Some ks \<and> sorted_wrt (\<ge>) ks \<and>
        (\<forall>k\<in>set ks. 0 \<le> k \<and> k \<le> sint p \<and> (\<exists>err. idempotence_check evs k = Some (Some err)))"
proof (induction rule: run_shape.induct)
  case (finished p skip0)
  then show ?case by (simp add: sent_ordinals_def)
next
  case (continued p r0 es succ xs evs b e skip0)
  have k: "0 \<le> sint p" using continued(1) by (simp add: sle_sint)
  from continued.IH obtain ks where ks:
    "sent_ordinals evs = map Some ks" "sorted_wrt (\<ge>) ks"
    "\<forall>k\<in>set ks. 0 \<le> k \<and> k \<le> sint p - 1 \<and> (\<exists>err. idempotence_check evs k = Some (Some err))"
    using k by (auto simp: sint_pred)
  define n where "n = length es + (if succ then 1 else 0 :: nat)"
  have r0: "\<exists>err. r0 = Some err" if "0 < n"
    using that continued(2) by (cases r0) (auto simp: iter_events_def n_def)
  have "sent_ordinals (xs @ evs) = map Some (replicate n (sint p) @ ks)"
    using sent_iter [OF continued(2), of evs] ks(1) by (simp add: n_def)
  moreover have "sorted_wrt (\<ge>) (replicate n (sint p) @ ks)"
    using ks(2,3) by (auto simp: sorted_wrt_append sorted_wrt_replicate_ge)
  moreover have "\<forall>k\<in>set (replicate n (sint p) @ ks). 0 \<le> k \<and> k \<le> sint p \<and>
      (\<exists>err. idempotence_check (xs @ evs) k = Some (Some err))"
    using ks(3) k r0 by (auto simp: idempotence_iter [OF continued(2)])
  ultimately show ?case by blast
next
  case (aborted p e0 es succ xs skip0 err)
  have k: "0 \<le> sint p" using aborted(1) by (simp add: sle_sint)
  define n where "n = length es + (if succ then 1 else 0 :: nat)"
  have "sent_ordinals xs = map Some (replicate n (sint p))"
    using sent_iter [OF aborted(2), of "[]"] by (simp add: n_def sent_ordinals_def)
  moreover have "\<forall>k\<in>set (replicate n (sint p)). 0 \<le> k \<and> k \<le> sint p \<and>
      (\<exists>err. idempotence_check xs k = Some (Some err))"
    using k idempotence_iter [OF aborted(2), of "[]"] by auto
  ultimately show ?case using sorted_wrt_replicate_ge by blast
next
  case (probe_aborted p e0 es succ xs skip0 label err)
  have k: "0 \<le> sint p" using probe_aborted(1) by (simp add: sle_sint)
  define n where "n = length es + (if succ then 1 else 0 :: nat)"
  let ?pr = "[EvProbe label (sint p) (Some err)]"
  have "sent_ordinals (xs @ ?pr) = map Some (replicate n (sint p))"
    using sent_iter [OF probe_aborted(2), of ?pr] by (simp add: n_def sent_ordinals_def)
  moreover have "\<forall>k\<in>set (replicate n (sint p)). 0 \<le> k \<and> k \<le> sint p \<and>
      (\<exists>err. idempotence_check (xs @ ?pr) k = Some (Some err))"
    using k idempotence_iter [OF probe_aborted(2), of ?pr] by auto
  ultimately show ?case using sorted_wrt_replicate_ge by blast
qed

lemma run_persisted:
  "run_shape Steps p skip0 evs b e \<Longrightarrow>
   \<exists>ks. persisted_ordinals evs = map Some ks \<and> sorted_wrt (>) ks \<and>
        (\<forall>k\<in>set ks. 0 \<le> k \<and> k \<le> sint p)"
proof (induction rule: run_shape.induct)
  case (finished p skip0)
  then show ?case by (simp add: persisted_ordinals_def)
next
  case (continued p r0 es succ xs evs b e skip0)
  have k: "0 \<le> sint p" using continued(1) by (simp add: sle_sint)
  from continued.IH obtain ks where ks:
    "persisted_ordinals evs = map Some ks" "sorted_wrt (>) ks"
    "\<forall>k\<in>set ks. 0 \<le> k \<and> k \<le> sint p - 1"
    using k by (auto simp: sint_pred)
  have "persisted_ordinals (xs @ evs) = map Some ((if succ then [sint p] else []) @ ks)"
    using persisted_iter [OF continued(2), of evs] ks(1) by simp
  moreover have "sorted_wrt (>) ((if succ then [sint p] else []) @ ks)"
    using ks(2,3) by auto
  moreover have "\<forall>k\<in>set ((if succ then [sint p] else []) @ ks). 0 \<le> k \<and> k \<le> sint p"
    using ks(3) k by auto
  ultimately show ?case by blast
next
  case (aborted p e0 es succ xs skip0 err)
  have k: "0 \<le> sint p" using aborted(1) by (simp add: sle_sint)
  have "persisted_ordinals xs = map Some (if succ then [sint p] else [])"
    using persisted_iter [OF aborted(2), of "[]"] by (simp add: persisted_ordinals_def)
  then show ?case using k by (intro exI [of _ "if succ then [sint p] else []"]) simp
next
  case (probe_aborted p e0 es succ xs skip0 label err)
  have k: "0 \<le> sint p" using probe_aborted(1) by (simp add: sle_sint)
  let ?pr = "[EvProbe label (sint p) (Some err)]"
  have "persisted_ordinals (xs @ ?pr) = map Some (if succ then [sint p] else [])"
    using persisted_iter [OF probe_aborted(2), of ?pr] by (simp add: persisted_ordinals_def)
  then show ?case using k by (intro exI [of _ "if succ then [sint p] else []"]) simp
qed

lemma run_persisted_complete:
  "run_shape Steps p skip0 evs b e \<Longrightarrow> e = None \<Longrightarrow> 0 < Steps \<Longrightarrow>
   persisted_ordinals evs
     = map Some (filter (\<lambda>k. idempotence_check evs k \<noteq> Some None) (rev [0..sint p]))"
proof (induction rule: run_shape.induct)
  case (finished p skip0)
  then show ?case by (simp add: persisted_ordinals_def sle_sint)
next
  case (continued p r0 es succ xs evs b e skip0)
  have k: "0 \<le> sint p" using continued(1) by (simp add: sle_sint)
  have IH: "persisted_ordinals evs
     = map Some (filter (\<lambda>k. idempotence_check evs k \<noteq> Some None) (rev [0..sint p - 1]))"
    using continued.IH continued.prems k by (simp add: sint_pred)
  have same: "filter (\<lambda>k. idempotence_check (xs @ evs) k \<noteq> Some None) (rev [0..sint p - 1])
      = filter (\<lambda>k. idempotence_check evs k \<noteq> Some None) (rev [0..sint p - 1])"
    by (rule filter_cong) (auto simp: idempotence_iter [OF continued(2)])
  have succ: "succ = (r0 \<noteq> None)"
    using continued(2,3) continued.prems by (auto simp: iter_events_def)
  show ?case
    using persisted_iter [OF continued(2), of evs] IH same succ k
    by (auto simp: rev_upto_Cons idempotence_iter [OF continued(2)])
qed simp_all

lemma run_error_hint:
  "run_shape Steps p skip0 evs b e \<Longrightarrow> e \<noteq> None \<Longrightarrow> \<not> b"
  by (induction rule: run_shape.induct) auto

lemma run_hint:
  "run_shape Steps p skip0 evs b e \<Longrightarrow> e = None \<Longrightarrow>
   b = (if 0 \<le> sint p then idempotence_check evs 0 = Some None else skip0)"
proof (induction rule: run_shape.induct)
  case (finished p skip0)
  then show ?case by (simp add: sle_sint)
next
  case (continued p r0 es succ xs evs b e skip0)
  have k: "0 \<le> sint p" using continued(1) by (simp add: sle_sint)
  have IH: "b = (if 0 \<le> sint p - 1 then idempotence_check evs 0 = Some None else r0 = None)"
    using continued.IH continued.prems k by (simp add: sint_pred)
  show ?case
  proof (cases "sint p = 0")
    case True
    then show ?thesis using IH k by (auto simp: idempotence_iter [OF continued(2)])
  next
    case False
    then show ?thesis using IH k by (auto simp: idempotence_iter [OF continued(2)])
  qed
qed simp_all

lemma run_probe:
  "run_shape Steps p skip0 evs b e \<Longrightarrow>
   list_all (\<lambda>ev. \<not> failed_probe ev) evs \<or>
   (\<exists>evs0 label q err. evs = evs0 @ [EvProbe label q (Some err)] \<and>
      list_all (\<lambda>ev. \<not> failed_probe ev) evs0 \<and> \<not> b \<and> e = Some err \<and>
      0 \<le> q \<and> q \<le> sint p \<and> visited evs = rev [q..sint p])"
proof (induction rule: run_shape.induct)
  case (finished p skip0)
  then show ?case by simp
next
  case (continued p r0 es succ xs evs b e skip0)
  have k: "0 \<le> sint p" using continued(1) by (simp add: sle_sint)
  from continued.IH show ?case
  proof
    assume "list_all (\<lambda>ev. \<not> failed_probe ev) evs"
    then show ?thesis using continued(5) by simp
  next
    assume "\<exists>evs0 label q err. evs = evs0 @ [EvProbe label q (Some err)] \<and>
      list_all (\<lambda>ev. \<not> failed_probe ev) evs0 \<and> \<not> b \<and> e = Some err \<and>
      0 \<le> q \<and> q \<le> sint (p - 1) \<and> visited evs = rev [q..sint (p - 1)]"
    then obtain evs0 label q err where q:
      "evs = evs0 @ [EvProbe label q (Some err)]" "list_all (\<lambda>ev. \<not> failed_probe ev) evs0"
      "\<not> b" "e = Some err" "0 \<le> q" "q \<le> sint p - 1" "visited evs = rev [q..sint p - 1]"
      using k by (auto simp: sint_pred)
    from visited_iter [OF continued(2), of evs]
    have "visited (xs @ evs) = rev [q..sint p]"
      using q(6,7) by (simp add: upto_rec2)
    moreover have "xs @ evs = (xs @ evs0) @ [EvProbe label q (Some err)]"
      using q(1) by simp
    moreover have "list_all (\<lambda>ev. \<not> failed_probe ev) (xs @ evs0)"
      using q(2) continued(5) by simp
    ultimately show ?thesis
      using q(3,4,5,6)
      by (intro disjI2 exI [of _ "xs @ evs0"] exI [of _ label] exI [of _ q] exI [of _ err]) simp
  qed
next
  case (aborted p e0 es succ xs skip0 err)
  then show ?case by simp
next
  case (probe_aborted p e0 es succ xs skip0 label err)
  have k: "0 \<le> sint p" using probe_aborted(1) by (simp add: sle_sint)
  have "visited (xs @ [EvProbe label (sint p) (Some err)]) = rev [sint p..sint p]"
    using visited_iter [OF probe_aborted(2), of "[EvProbe label (sint p) (Some err)]"]
    by (simp add: visited_def)
  then show ?case
    using probe_aborted(3) k
    by (intro disjI2 exI [of _ xs] exI [of _ label] exI [of _ "sint p"] exI [of _ err]) simp
qed

lemma retried_last_block:
  "conflicts_first es succ \<Longrightarrow> retried_on_conflict (iteration_writes p es succ)"
proof (induction es)
  case Nil
  then show ?case by (simp add: iteration_writes_def)
next
  case (Cons e es)
  show ?case
  proof (cases es)
    case Nil
    then show ?thesis using Cons.prems by (auto simp: iteration_writes_def conflicts_first_def)
  next
    case (Cons e' es')
    then have "IsConflict e" "conflicts_first es succ"
      using Cons.prems by (auto simp: conflicts_first_def)
    then show ?thesis using Cons.IH Cons by simp
  qed
qed

lemma retried_block:
  assumes "list_all IsConflict es" and "retried_on_conflict ws"
    and "\<forall>w\<in>set ws. fst w \<noteq> Some p"
  shows "retried_on_conflict (iteration_writes p es succ @ ws)"
  using assms(1)
proof (induction es)
  case Nil
  then show ?case using assms(2,3) by (cases ws) (auto simp: iteration_writes_def)
next
  case (Cons e es)
  then have IH: "retried_on_conflict (iteration_writes p es succ @ ws)" by simp
  show ?case
  proof (cases "iteration_writes p es succ @ ws")
    case Nil
    then show ?thesis by simp
  next
    case (Cons w ws')
    then show ?thesis using IH Cons.prems by (cases w) simp
  qed
qed

lemma run_discipline:
  "run_shape Steps p skip0 evs b e \<Longrightarrow> retried_on_conflict (writes evs)"
proof (induction rule: run_shape.induct)
  case (finished p skip0)
  then show ?case by simp
next
  case (continued p r0 es succ xs evs b e skip0)
  have k: "0 \<le> sint p" using continued(1) by (simp add: sle_sint)
  from run_sent [OF continued(6)] obtain ks where ks:
    "sent_ordinals evs = map Some ks" "\<forall>k\<in>set ks. k \<le> sint (p - 1)"
    by auto
  have "fst w \<noteq> Some p" if "w \<in> set (writes evs)" for w
  proof
    assume "fst w = Some p"
    then have "Some (sint p) \<in> set (sent_ordinals evs)"
      using that by (force simp: sent_ordinals_def)
    then have "sint p \<le> sint (p - 1)" using ks by auto
    then show False using k by (simp add: sint_pred)
  qed
  then show ?case
    using continued(2,4) continued.IH retried_block [of es "writes evs" p succ]
    by (simp add: iter_events_def)
next
  case (aborted p e0 es succ xs skip0 err)
  then show ?case using retried_last_block [of es succ p] by (simp add: iter_events_def)
next
  case (probe_aborted p e0 es succ xs skip0 label err)
  then show ?case using retried_last_block [of es succ p] by (simp add: iter_events_def)
qed

lemma own_ordinal_writes:
  "\<forall>w\<in>set ws. fst w = Some p \<Longrightarrow>
   own_ordinal (Some (sint p)) (map (\<lambda>w. Inr (map_option sint (fst w))) ws @ ms)
     = own_ordinal (Some (sint p)) ms"
  by (induction ws) auto

lemma own_ordinal_iter:
  assumes "iter_events p r0 es succ xs"
  shows "own_ordinal cur (marks (xs @ ys)) = own_ordinal (Some (sint p)) (marks ys)"
proof -
  have "\<forall>w\<in>set (writes xs). fst w = Some p"
    using assms by (auto simp: iter_events_def iteration_writes_def)
  from own_ordinal_writes [OF this] show ?thesis
    using assms by (simp add: iter_events_def)
qed

lemma run_own_ordinal:
  "run_shape Steps p skip0 evs b e \<Longrightarrow> own_ordinal cur (marks evs)"
proof (induction arbitrary: cur rule: run_shape.induct)
  case (finished p skip0)
  then show ?case by simp
next
  case (continued p r0 es succ xs evs b e skip0)
  show ?case
    using own_ordinal_iter [OF continued(2), of cur evs] continued.IH by simp
next
  case (aborted p e0 es succ xs skip0 err)
  show ?case
    using own_ordinal_iter [OF aborted(2), of cur "[]"] by simp
next
  case (probe_aborted p e0 es succ xs skip0 label err)
  show ?case
    using own_ordinal_iter [OF probe_aborted(2), of cur "[EvProbe label (sint p) (Some err)]"]
    by simp
qed

section \<open>The conflict retry\<close>









section \<open>Concrete runs\<close>

lemma strategy_shape:
  assumes "PartitionedRollingUpdateStrategy Steps lib perIteration V u t s = Some (s', out)"
    and "Replicas (sts u) = Some n"
  shows "\<exists>evs b e. out = Returned b e \<and> trace s' = trace s @ evs \<and>
           run_shape Steps (n - 1) False evs b e"
proof -
  obtain v b e where lp: "loop Steps lib perIteration V u t (init_vars u s) (n - 1) = Some (v, b, e)"
    and out: "s' = io_of v" "out = Returned b e"
    using assms by (auto simp: PartitionedRollingUpdateStrategy_def split: option.splits)
  from loop_shape [OF lp] obtain evs where
    "trace v = trace (init_vars u s) @ evs" "run_shape Steps (n - 1) (skipSleep (init_vars u s)) evs b e"
    by blast
  then show ?thesis
    using out by (intro exI [of _ evs] exI [of _ b] exI [of _ e]) (simp add: io_of_def init_vars_def)
qed

lemma run_skip_then_update:
  "PartitionedRollingUpdateStrategy 5 scripted_backoff True scripted_verify (crdb_updateSts 2)
     scripted_timer (start skip_then_update)
   = Some (\<lparr>world = (calm 2)\<lparr>stored := updated_crdb 2 0\<rparr>,
            trace = [EvVerify AtLoopStart 1 None, skip_log 1,
                     EvVerify AtLoopStart 0 (Some unready), EvWaitReady None,
                     EvUpdate ''db'' (updated_crdb 2 0) (Inr (updated_crdb 2 0)),
                     wait_log 0, EvVerify InPoller 0 None,
                     EvGet ''db'' ''crdb'' (Inr (updated_crdb 2 0)),
                     EvProbe probe_label 0 None]\<rparr>,
           Returned False None)"
  by (simp add: run_simps skip_then_update_def updated_crdb_def probe_label_def)

lemma run_probe_fails:
  "PartitionedRollingUpdateStrategy 5 scripted_backoff True scripted_verify (crdb_updateSts 2)
     scripted_timer (start probe_fails)
   = Some (\<lparr>world = (calm 2)\<lparr>stored := updated_crdb 2 1\<rparr>,
            trace = [EvVerify AtLoopStart 1 (Some unready), EvWaitReady None,
                     EvUpdate ''db'' (updated_crdb 2 1) (Inr (updated_crdb 2 1)),
                     wait_log 1, EvVerify InPoller 1 None,
                     EvGet ''db'' ''crdb'' (Inr (updated_crdb 2 1)),
                     EvProbe probe_label 1 (Some unhealthy)]\<rparr>,
           Returned False (Some unhealthy))"
  by (simp add: run_simps probe_fails_def updated_crdb_def probe_label_def)

lemma run_update_then_skip:
  "PartitionedRollingUpdateStrategy 5 scripted_backoff True scripted_verify (crdb_updateSts 2)
     scripted_timer (start update_then_skip)
   = Some (\<lparr>world = (calm 2)\<lparr>stored := updated_crdb 2 1\<rparr>,
            trace = [EvVerify AtLoopStart 1 (Some unready), EvWaitReady None,
                     EvUpdate ''db'' (updated_crdb 2 1) (Inr (updated_crdb 2 1)),
                     wait_log 1, EvVerify InPoller 1 None,
                     EvGet ''db'' ''crdb'' (Inr (updated_crdb 2 1)),
                     EvProbe probe_label 1 None,
                     EvVerify AtLoopStart 0 None, skip_log 0]\<rparr>,
           Returned True None)"
  by (simp add: run_simps update_then_skip_def updated_crdb_def probe_label_def)

lemma run_all_updated:
  "PartitionedRollingUpdateStrategy 5 scripted_backoff True scripted_verify (crdb_updateSts 1)
     scripted_timer (start (calm 1))
   = Some (\<lparr>world = calm 1, trace = [EvVerify AtLoopStart 0 None, skip_log 0]\<rparr>, Returned True None)"
  by (simp add: run_simps)

lemmas trace_defs = visited_def idempotence_check_def sent_ordinals_def persisted_ordinals_def
  skip_log_def wait_log_def updated_crdb_def cutoff_def with_partition_def unready_def
  unhealthy_def

section \<open>The update step inside the iteration\<close>

lemma iteration_uses_updatePartition:
  assumes "V (world v) (updateSts_now perIteration updateSts v p) (sint p) = (w1, Some verr)"
    and "waitUntilAllPodsReadyFunc updateTimer w1 = (w2, None)"
  shows "iteration Steps lib perIteration V updateSts updateTimer v p =
     (case updatePartition Steps updateSts (Name (cur_sts v)) (Namespace (cur_sts v)) p
             (v\<lparr>skipSleep := False, world := w2,
                trace := trace v @ [EvVerify AtLoopStart (sint p) (Some verr), EvWaitReady None]\<rparr>) of
        (v4, Some err) \<Rightarrow> Some (Return v4 False (Some err))
      | (v4, None) \<Rightarrow>
          verifyRefreshProbe lib perIteration V updateSts updateTimer
            (Name (cur_sts v)) (Namespace (cur_sts v)) p v4)"
  using assms by (simp add: iteration_def call_verify_def call_waitReady_def Let_def)

lemma strategy_error_hint:
  assumes "PartitionedRollingUpdateStrategy Steps lib perIteration V u t s
             = Some (s', Returned b (Some err))"
  shows "\<not> b"
proof -
  obtain n where n: "Replicas (sts u) = Some n"
    using assms by (cases "Replicas (sts u)") (auto simp: PartitionedRollingUpdateStrategy_def)
  from strategy_shape [OF assms n] obtain evs where
    "trace s' = trace s @ evs" "run_shape Steps (n - 1) False evs b (Some err)"
    by auto
  from run_error_hint [OF this(2)] show ?thesis by simp
qed

lemma probe_failure_is_last:
  assumes "Replicas (sts updateSts) = Some n"
    and "PartitionedRollingUpdateStrategy Steps lib perIteration V updateSts updateTimer s
           = Some (s', out)"
    and "trace s' = trace s @ evs"
    and "EvProbe label q (Some err) \<in> set evs"
  shows "out = Returned False (Some err)
       \<and> (\<exists>evs0. evs = evs0 @ [EvProbe label q (Some err)]
             \<and> list_all (\<lambda>ev. \<not> failed_probe ev) evs0)
       \<and> visited evs = rev [q..sint (n - 1)]"
proof -
  from strategy_shape [OF assms(2,1)] obtain evs' b e where
    out: "out = Returned b e" and "trace s' = trace s @ evs'"
    and "run_shape Steps (n - 1) False evs' b e"
    by auto
  then have run: "run_shape Steps (n - 1) False evs b e"
    using assms(3) by simp
  have "\<exists>ev\<in>set evs. failed_probe ev"
    using assms(4) by (intro bexI [of _ "EvProbe label q (Some err)"]) simp_all
  then have "\<not> list_all (\<lambda>ev. \<not> failed_probe ev) evs"
    by (simp add: list_all_iff)
  with run_probe [OF run] obtain evs0 label' q' err' where last:
    "evs = evs0 @ [EvProbe label' q' (Some err')]" "list_all (\<lambda>ev. \<not> failed_probe ev) evs0"
    "\<not> b" "e = Some err'" "visited evs = rev [q'..sint (n - 1)]"
    by auto
  have "EvProbe label q (Some err) \<notin> set evs0"
    using last(2) by (auto simp: list_all_iff)
  then have same: "label' = label" "q' = q" "err' = err"
    using assms(4) last(1) by auto
  show ?thesis
    using out last same by auto
qed

section \<open>The poller under the back-off of the spec\<close>

lemma map_upt_shift:
  "map f [0..<Suc n] = f 0 # map (\<lambda>j. f (Suc j)) [0..<n]"
  by (simp add: map_upt_Suc del: upt_Suc)

lemma retry_times_out:
  fixes s :: "('x timed_scheme, 'm, 'z) io_scheme"
  assumes never: "\<forall>w. snd (V w u k) \<noteq> None"
    and frame: "\<forall>w. pauses (fst (V w u k)) = pauses w"
    and mono: "\<forall>w. clock w \<le> clock (fst (V w u k))"
    and passes: "(\<forall>w. clock w < clock (fst (V w u k))) \<or> (0 < I0 \<and> 0 < m \<and> 0 < M)"
    and b: "MaxElapsedTime b = T" "MaxInterval b = M" "Multiplier b = m"
      "currentInterval b = I0 * int m ^ i" "startTime b = t0"
  shows "\<exists>v' es ps.
      backoff_Retry (exponential_backoff dflt) b (call_verify InPoller V u k) s
        = Some (v', Some (timeout_error (last es)))
      \<and> es \<noteq> [] \<and> trace v' = trace s @ map (\<lambda>e. EvVerify InPoller k (Some e)) es
      \<and> pauses (world v') = pauses (world s) @ ps
      \<and> map snd ps = map (\<lambda>j. min (I0 * int m ^ (i + j)) M) [0..<length es - 1]
      \<and> (\<forall>(t, d)\<in>set ps. t - t0 \<le> T) \<and> T < clock (world v') - t0"
  using b
proof (induction "nat (T + 1 + t0 - clock (world s))" arbitrary: s b i rule: less_induct)
  case less
  let ?lib = "exponential_backoff dflt :: ('x timed_scheme) backoff"
  let ?f = "call_verify InPoller V u k :: ('x timed_scheme, 'm, 'z) io_scheme \<Rightarrow> _"
  obtain w1 r where V0: "V (world s) u k = (w1, r)" by (cases "V (world s) u k") auto
  with never obtain e where V: "V (world s) u k = (w1, Some e)"
    by (cases r) (auto dest: spec [of _ "world s"])
  define s1 where "s1 = s\<lparr>world := w1, trace := trace s @ [EvVerify InPoller k (Some e)]\<rparr>"
  have f: "?f s = (s1, Some e)" by (simp add: call_verify_def V s1_def)
  have c1: "clock (world s) \<le> clock w1" using mono [THEN spec, of "world s"] V by simp
  have p1: "pauses w1 = pauses (world s)" using frame [THEN spec, of "world s"] V by simp
  show ?case
  proof (cases "T < clock w1 - t0")
    case True
    have "backoff_Retry ?lib b ?f s = Some (s1, Some (timeout_error e))"
      by (subst backoff_Retry.simps) (simp add: f exponential_backoff_def less.prems True s1_def)
    then show ?thesis
      using True by (intro exI [of _ s1] exI [of _ "[e]"] exI [of _ "[]"]) (simp add: s1_def p1)
  next
    case False
    define d where "d = min (I0 * int m ^ i) M"
    define w2 where "w2 = sleep d w1"
    define b' where "b' = b\<lparr>currentInterval := currentInterval b * int m\<rparr>"
    define s2 where "s2 = s1\<lparr>world := w2\<rparr>"
    have step: "backoff_Retry ?lib b ?f s = backoff_Retry ?lib b' ?f s2"
      by (subst backoff_Retry.simps)
         (simp add: f exponential_backoff_def less.prems False s1_def s2_def w2_def d_def b'_def)
    have c2: "clock w2 = clock w1 + max 0 d" "pauses w2 = pauses (world s) @ [(clock w1, d)]"
      by (simp_all add: w2_def sleep_def p1)
    have adv: "clock (world s) < clock w2"
      using passes
    proof
      assume "\<forall>w. clock w < clock (fst (V w u k))"
      from this [THEN spec, of "world s"] show ?thesis using V c2 by simp
    next
      assume pos: "0 < I0 \<and> 0 < m \<and> 0 < M"
      then have "0 < I0 * int m ^ i" by simp
      then have "0 < d" using pos by (simp add: d_def)
      then show ?thesis using c1 c2 by simp
    qed
    have meas: "nat (T + 1 + t0 - clock (world s2)) < nat (T + 1 + t0 - clock (world s))"
      using adv False c1 by (simp add: s2_def)
    have b': "MaxElapsedTime b' = T" "MaxInterval b' = M" "Multiplier b' = m"
      "currentInterval b' = I0 * int m ^ Suc i" "startTime b' = t0"
      using less.prems by (simp_all add: b'_def)
    from less.hyps [OF meas b'] obtain v' es ps where IH:
      "backoff_Retry ?lib b' ?f s2 = Some (v', Some (timeout_error (last es)))"
      "es \<noteq> []" "trace v' = trace s2 @ map (\<lambda>e. EvVerify InPoller k (Some e)) es"
      "pauses (world v') = pauses (world s2) @ ps"
      "map snd ps = map (\<lambda>j. min (I0 * int m ^ (Suc i + j)) M) [0..<length es - 1]"
      "\<forall>(t, d)\<in>set ps. t - t0 \<le> T" "T < clock (world v') - t0"
      by blast
    obtain n where n: "length es = Suc n" using IH(2) by (cases es) auto
    have "map snd ((clock w1, d) # ps)
            = map (\<lambda>j. min (I0 * int m ^ (i + j)) M) [0..<length (e # es) - 1]"
      using IH(5) n by (simp add: map_upt_shift d_def del: upt_Suc)
    moreover have "\<forall>(t, d)\<in>set ((clock w1, d) # ps). t - t0 \<le> T"
      using IH(6) False by simp
    moreover have "trace v' = trace s @ map (\<lambda>e. EvVerify InPoller k (Some e)) (e # es)"
      using IH(3) by (simp add: s2_def s1_def)
    moreover have "pauses (world v') = pauses (world s) @ (clock w1, d) # ps"
      using IH(4) c2 by (simp add: s2_def)
    moreover have "backoff_Retry ?lib b ?f s = Some (v', Some (timeout_error (last (e # es))))"
      using step IH(1,2) by simp
    ultimately show ?thesis
      using IH(7) by (intro exI [of _ v'] exI [of _ "e # es"] exI [of _ "(clock w1, d) # ps"]) simp
  qed
qed

section \<open>Claims\<close>

text \<open>
  C9. With zero replicas the loop variable starts at \<open>0 - 1\<close>, which as a signed
  \<^verbatim>\<open>int32\<close> is \<open>-1\<close> and not a large positive number, so the loop body never
  runs: the strategy returns \<^verbatim>\<open>(false, nil)\<close> at once, with the world untouched and
  nothing added to the trace (no verification, readiness wait, update or probe).
\<close>

theorem C9_zero_replicas:
  assumes "Replicas (sts updateSts) = Some 0"
  shows "PartitionedRollingUpdateStrategy Steps lib perIteration V updateSts updateTimer s
           = Some (s, Returned False None)
         \<and> sint ((0 :: 32 word) - 1) = - 1"
  using assms
  by (simp add: PartitionedRollingUpdateStrategy_def loop_stop word_sle_eq io_of_def init_vars_def)

theorem C9_zero_replicas_witness:
  "Replicas (sts (crdb_updateSts 0)) = Some 0
   \<and> PartitionedRollingUpdateStrategy 5 scripted_backoff True scripted_verify (crdb_updateSts 0)
        scripted_timer (start (calm 0)) = Some (start (calm 0), Returned False None)"
proof -
  have h: "Replicas (sts (crdb_updateSts 0)) = Some 0"
    by (simp add: scripted_defs)
  from C9_zero_replicas [OF h] show ?thesis using h by simp
qed

text \<open>
  C2. If the verification function answers nil at the start of the iteration for ordinal
  \<open>k\<close>, the iteration makes that one call, writes the debug line, sets \<open>skipSleep\<close> to
  true and changes nothing else: no readiness wait, no update, no probe. The loop then goes
  on with \<open>k - 1\<close>.
\<close>

theorem C2_idempotence_skip:
  assumes "V (world v) (updateSts_now perIteration updateSts v k) (sint k) = (w, None)"
  shows "iteration Steps lib perIteration V updateSts updateTimer v k
           = Some (Continue (v\<lparr>world := w,
                               trace := trace v @ [EvVerify AtLoopStart (sint k) None, skip_log k],
                               skipSleep := True\<rparr>))
         \<and> (0 \<le>s k \<longrightarrow>
              loop Steps lib perIteration V updateSts updateTimer v k
                = loop Steps lib perIteration V updateSts updateTimer
                    (v\<lparr>world := w, trace := trace v @ [EvVerify AtLoopStart (sint k) None, skip_log k],
                       skipSleep := True\<rparr>) (k - 1))"
proof -
  have it: "iteration Steps lib perIteration V updateSts updateTimer v k
           = Some (Continue (v\<lparr>world := w,
                               trace := trace v @ [EvVerify AtLoopStart (sint k) None, skip_log k],
                               skipSleep := True\<rparr>))"
    using assms by (simp add: iteration_def call_verify_def log_Debug_def skip_log_def)
  then show ?thesis by (simp add: loop_step)
qed

theorem C2_idempotence_skip_witness:
  "scripted_verify (world (init_vars (crdb_updateSts 2) (start (calm 2))))
       (updateSts_now True (crdb_updateSts 2) (init_vars (crdb_updateSts 2) (start (calm 2))) 1)
       (sint (1 :: 32 word)) = (calm 2, None)
   \<and> iteration 5 scripted_backoff True scripted_verify (crdb_updateSts 2) scripted_timer
        (init_vars (crdb_updateSts 2) (start (calm 2))) 1
      = Some (Continue ((init_vars (crdb_updateSts 2) (start (calm 2)))
                \<lparr>world := calm 2, trace := [EvVerify AtLoopStart 1 None, skip_log 1], skipSleep := True\<rparr>))"
proof -
  have h: "scripted_verify (world (init_vars (crdb_updateSts 2) (start (calm 2))))
       (updateSts_now True (crdb_updateSts 2) (init_vars (crdb_updateSts 2) (start (calm 2))) 1)
       (sint (1 :: 32 word)) = (calm 2, None)"
    by (simp add: scripted_defs init_vars_def)
  from C2_idempotence_skip
         [where V = scripted_verify and perIteration = True and updateSts = "crdb_updateSts 2"
            and v = "init_vars (crdb_updateSts 2) (start (calm 2))" and k = 1 and w = "calm 2"
            and Steps = 5 and lib = scripted_backoff and updateTimer = scripted_timer, OF h]
  show ?thesis
    using h by (simp add: init_vars_def start_def)
qed

text \<open>
  C7. If the idempotence check fails and the readiness wait then fails, the iteration
  returns \<^verbatim>\<open>false\<close> with the wrapped error right away. Its only calls are these two:
  no update is sent, and the objects behind \<^verbatim>\<open>updateSts.sts\<close> and the local
  \<^verbatim>\<open>sts\<close> are as before, so the partition cutoff is untouched.
\<close>

theorem C7_readiness_wait_failure:
  assumes "V (world v) (updateSts_now perIteration updateSts v p) (sint p) = (w1, Some verr)"
    and "waitUntilAllPodsReadyFunc updateTimer w1 = (w2, Some err)"
  shows "iteration Steps lib perIteration V updateSts updateTimer v p
           = Some (Return
               (v\<lparr>world := w2,
                  trace := trace v @ [EvVerify AtLoopStart (sint p) (Some verr), EvWaitReady (Some err)],
                  skipSleep := False\<rparr>)
               False (Some (Wrapf err ''error while waiting for all pods to be ready'' [])))
         \<and> (0 \<le>s p \<longrightarrow>
              loop Steps lib perIteration V updateSts updateTimer v p
                = Some (v\<lparr>world := w2,
                          trace := trace v @ [EvVerify AtLoopStart (sint p) (Some verr), EvWaitReady (Some err)],
                          skipSleep := False\<rparr>,
                        False, Some (Wrapf err ''error while waiting for all pods to be ready'' [])))
         \<and> writes [EvVerify AtLoopStart (sint p) (Some verr), EvWaitReady (Some err) :: 'm event] = []
         \<and> mem_sts (v\<lparr>world := w2,
                  trace := trace v @ [EvVerify AtLoopStart (sint p) (Some verr), EvWaitReady (Some err)],
                  skipSleep := False\<rparr>) = mem_sts (v :: ('w, 'm) vars)
         \<and> local_sts (v\<lparr>world := w2,
                  trace := trace v @ [EvVerify AtLoopStart (sint p) (Some verr), EvWaitReady (Some err)],
                  skipSleep := False\<rparr>) = local_sts v"
proof -
  have it: "iteration Steps lib perIteration V updateSts updateTimer v p
           = Some (Return
               (v\<lparr>world := w2,
                  trace := trace v @ [EvVerify AtLoopStart (sint p) (Some verr), EvWaitReady (Some err)],
                  skipSleep := False\<rparr>)
               False (Some (Wrapf err ''error while waiting for all pods to be ready'' [])))"
    using assms by (simp add: iteration_def call_verify_def call_waitReady_def)
  then show ?thesis by (simp add: loop_step writes_def)
qed

theorem C7_readiness_wait_failure_witness:
  "iteration 5 scripted_backoff True scripted_verify (crdb_updateSts 2) scripted_timer
     (init_vars (crdb_updateSts 2)
        (start ((calm 2)\<lparr>verify_script := [Some unready], wait_script := [Some unhealthy]\<rparr>))) 1
   = Some (Return
       ((init_vars (crdb_updateSts 2)
           (start ((calm 2)\<lparr>verify_script := [Some unready], wait_script := [Some unhealthy]\<rparr>)))
          \<lparr>world := calm 2,
            trace := [EvVerify AtLoopStart 1 (Some unready), EvWaitReady (Some unhealthy)],
            skipSleep := False\<rparr>)
       False (Some (Wrapf unhealthy ''error while waiting for all pods to be ready'' [])))"
proof -
  let ?w = "(calm 2)\<lparr>verify_script := [Some unready], wait_script := [Some unhealthy]\<rparr>"
  let ?v = "init_vars (crdb_updateSts 2) (start ?w)"
  have h1: "scripted_verify (world ?v) (updateSts_now True (crdb_updateSts 2) ?v 1)
       (sint (1 :: 32 word)) = (?w\<lparr>verify_script := []\<rparr>, Some unready)"
    by (simp add: scripted_defs init_vars_def)
  have h2: "waitUntilAllPodsReadyFunc scripted_timer (?w\<lparr>verify_script := []\<rparr>)
       = (calm 2, Some unhealthy)"
    by (simp add: scripted_defs)
  from C7_readiness_wait_failure
         [where V = scripted_verify and perIteration = True and updateSts = "crdb_updateSts 2"
            and v = ?v and p = 1 and ?w1.0 = "?w\<lparr>verify_script := []\<rparr>" and verr = unready
            and updateTimer = scripted_timer and ?w2.0 = "calm 2" and err = unhealthy
            and Steps = 5 and lib = scripted_backoff, OF h1 h2]
  show ?thesis
    by (simp add: init_vars_def start_def)
qed

text \<open>
  C1, as amended. For a replica count \<open>N \<ge> 0\<close>, the loop visits the ordinals
  \<open>N - 1, N - 2, ..., 0\<close> in this order, each once: all of them when the strategy returns no
  error, an initial part of the sequence when it aborts. The cutoff is sent to the store only
  in iterations whose idempotence check failed, and every update carries the ordinal of
  the iteration it is made in. The values sent never increase; a value is sent again only
  after the store rejected it with a conflict, and after an accepted update the next one
  carries another value. The values the store accepted are strictly decreasing. When the
  strategy returns no error and the retry helper makes at least one attempt
  (\<open>0 < Steps\<close>), the accepted values are exactly the ordinals whose idempotence check
  did not succeed, in decreasing order.
\<close>

theorem C1_visits_and_cutoffs:
  assumes "Replicas (sts updateSts) = Some n" and "0 \<le> sint n"
    and "PartitionedRollingUpdateStrategy Steps lib perIteration V updateSts updateTimer s
           = Some (s', Returned b e)"
    and "trace s' = trace s @ evs"
  shows "prefix (visited evs) (rev [0..sint n - 1])
       \<and> (e = None \<longrightarrow> visited evs = rev [0..sint n - 1])
       \<and> own_ordinal None (marks evs)
       \<and> (\<exists>ks. sent_ordinals evs = map Some ks \<and> sorted_wrt (\<ge>) ks \<and>
              (\<forall>k\<in>set ks. 0 \<le> k \<and> k < sint n \<and>
                 (\<exists>err. idempotence_check evs k = Some (Some err))))
       \<and> retried_on_conflict (writes evs)
       \<and> (\<exists>ks. persisted_ordinals evs = map Some ks \<and> sorted_wrt (>) ks)
       \<and> (e = None \<and> 0 < Steps \<longrightarrow>
            persisted_ordinals evs
              = map Some (filter (\<lambda>k. idempotence_check evs k \<noteq> Some None) (rev [0..sint n - 1])))"
proof -
  from strategy_shape [OF assms(3,1)] obtain evs' where
    "trace s' = trace s @ evs'" "run_shape Steps (n - 1) False evs' b e"
    by auto
  then have run: "run_shape Steps (n - 1) False evs b e"
    using assms(4) by simp
  have top: "sint (n - 1) = sint n - 1"
    using assms(2) by (rule sint_pred)
  have "\<exists>ks. sent_ordinals evs = map Some ks \<and> sorted_wrt (\<ge>) ks \<and>
              (\<forall>k\<in>set ks. 0 \<le> k \<and> k < sint n \<and>
                 (\<exists>err. idempotence_check evs k = Some (Some err)))"
    using run_sent [OF run] top by (auto simp: less_le)
  moreover have "\<exists>ks. persisted_ordinals evs = map Some ks \<and> sorted_wrt (>) ks"
    using run_persisted [OF run] by blast
  ultimately show ?thesis
    using run_visited [OF run] run_persisted_complete [OF run] run_discipline [OF run]
      run_own_ordinal [OF run, of None] top
    by simp
qed

text \<open>A run with two replicas: ordinal 1 is skipped, ordinal 0 is updated.\<close>

theorem C1_visits_and_cutoffs_witness:
  "Replicas (sts (crdb_updateSts 2)) = Some 2 \<and> (0 :: int) \<le> sint (2 :: 32 word)
   \<and> visited [EvVerify AtLoopStart 1 None, skip_log 1, EvVerify AtLoopStart 0 (Some unready), EvWaitReady None,
        EvUpdate ''db'' (updated_crdb 2 0) (Inr (updated_crdb 2 0)), wait_log 0, EvVerify InPoller 0 None,
        EvGet ''db'' ''crdb'' (Inr (updated_crdb 2 0)), EvProbe probe_label 0 None :: unit event]
      = [1, 0]
   \<and> persisted_ordinals [EvVerify AtLoopStart 1 None, skip_log 1, EvVerify AtLoopStart 0 (Some unready), EvWaitReady None,
        EvUpdate ''db'' (updated_crdb 2 0) (Inr (updated_crdb 2 0)), wait_log 0, EvVerify InPoller 0 None,
        EvGet ''db'' ''crdb'' (Inr (updated_crdb 2 0)), EvProbe probe_label 0 None :: unit event]
      = [Some 0]"
proof -
  have h1: "Replicas (sts (crdb_updateSts 2)) = Some 2" by (simp add: scripted_defs)
  have h2: "(0 :: int) \<le> sint (2 :: 32 word)" by simp
  have h4: "trace \<lparr>world = (calm 2)\<lparr>stored := updated_crdb 2 0\<rparr>,
            trace = [EvVerify AtLoopStart 1 None, skip_log 1,
                     EvVerify AtLoopStart 0 (Some unready), EvWaitReady None,
                     EvUpdate ''db'' (updated_crdb 2 0) (Inr (updated_crdb 2 0)),
                     wait_log 0, EvVerify InPoller 0 None,
                     EvGet ''db'' ''crdb'' (Inr (updated_crdb 2 0)),
                     EvProbe probe_label 0 None]\<rparr>
     = trace (start skip_then_update) @ [EvVerify AtLoopStart 1 None, skip_log 1,
                     EvVerify AtLoopStart 0 (Some unready), EvWaitReady None,
                     EvUpdate ''db'' (updated_crdb 2 0) (Inr (updated_crdb 2 0)),
                     wait_log 0, EvVerify InPoller 0 None,
                     EvGet ''db'' ''crdb'' (Inr (updated_crdb 2 0)),
                     EvProbe probe_label 0 None]"
    by (simp add: start_def)
  from C1_visits_and_cutoffs [OF h1 h2 run_skip_then_update h4] show ?thesis
    using h1 by (simp add: trace_defs upto.simps)
qed

text \<open>With one replica that is already updated the strategy completes and sends no cutoff
  at all, where the claim as stated asks for the value 0.\<close>

theorem C1_counterexample:
  "Replicas (sts (crdb_updateSts 1)) = Some 1
   \<and> PartitionedRollingUpdateStrategy 5 scripted_backoff True scripted_verify (crdb_updateSts 1)
        scripted_timer (start (calm 1))
      = Some (\<lparr>world = calm 1, trace = [EvVerify AtLoopStart 0 None, skip_log 0]\<rparr>, Returned True None)
   \<and> sent_ordinals [EvVerify AtLoopStart 0 None, skip_log 0 :: unit event] = []"
  using run_all_updated by (simp add: scripted_defs trace_defs)



text \<open>
  C4. The poller under the back-off of the spec, for a verification function that never
  succeeds for the pod. The function leaves the world's record of the pauses alone, time
  does not run backwards during a call of it, and time passes in every round: every call
  takes time, or every pause does (the initial interval, the growth factor and the
  configured maximum polling interval are positive). Then the poller returns, and it
  returns a timeout error that carries the last failure of the function. Its calls are
  those of the function, one for every failure in \<open>es\<close>. Before each call but the
  first it paused: pause number \<open>j\<close>, counted from 0, lasts the initial interval times
  the \<open>j\<close>-th power of the growth factor, capped at the configured maximum polling
  interval. Every pause began while the time elapsed since the poller was entered did not
  exceed the configured timeout, and at the return the elapsed time exceeds it: the poller
  stops at the first failure after which the timeout is exceeded.
\<close>

theorem C4_poller_times_out:
  fixes v :: "('x timed_scheme, 'm, 'z) io_scheme"
  assumes never: "\<forall>w. snd (V w updateSts k) \<noteq> None"
    and frame: "\<forall>w. pauses (fst (V w updateSts k)) = pauses w"
    and mono: "\<forall>w. clock w \<le> clock (fst (V w updateSts k))"
    and passes: "(\<forall>w. clock w < clock (fst (V w updateSts k)))
               \<or> (0 < InitialInterval defaults \<and> 0 < Multiplier defaults
                    \<and> 0 < podMaxPollingInterval updateTimer)"
  shows "\<exists>v' es ps.
      waitUntilPerPodVerificationFuncVerifies (exponential_backoff defaults) updateSts V k updateTimer v
        = Some (v', Some (timeout_error (last es)))
      \<and> es \<noteq> [] \<and> trace v' = trace v @ map (\<lambda>e. EvVerify InPoller k (Some e)) es
      \<and> pauses (world v') = pauses (world v) @ ps
      \<and> map snd ps
          = map (\<lambda>j. min (InitialInterval defaults * int (Multiplier defaults) ^ j)
                         (podMaxPollingInterval updateTimer)) [0..<length es - 1]
      \<and> (\<forall>(t, d)\<in>set ps. t - clock (world v) \<le> podUpdateTimeout updateTimer)
      \<and> podUpdateTimeout updateTimer < clock (world v') - clock (world v)"
proof -
  define b where "b = (new_backoff (exponential_backoff defaults :: ('x timed_scheme) backoff) (world v))
                        \<lparr>MaxElapsedTime := podUpdateTimeout updateTimer,
                         MaxInterval := podMaxPollingInterval updateTimer\<rparr>"
  have b: "MaxElapsedTime b = podUpdateTimeout updateTimer"
    "MaxInterval b = podMaxPollingInterval updateTimer"
    "Multiplier b = Multiplier defaults"
    "currentInterval b = InitialInterval defaults * int (Multiplier defaults) ^ 0"
    "startTime b = clock (world v)"
    by (simp_all add: b_def exponential_backoff_def)
  have unf: "waitUntilPerPodVerificationFuncVerifies (exponential_backoff defaults) updateSts V k
               updateTimer v
             = backoff_Retry (exponential_backoff defaults) b (call_verify InPoller V updateSts k) v"
    by (simp add: waitUntilPerPodVerificationFuncVerifies_def b_def Let_def)
  from retry_times_out
         [where V = V and u = updateSts and k = k and ?I0.0 = "InitialInterval defaults"
            and m = "Multiplier defaults" and M = "podMaxPollingInterval updateTimer" and b = b
            and T = "podUpdateTimeout updateTimer" and i = 0 and ?t0.0 = "clock (world v)"
            and dflt = defaults and s = v, OF never frame mono passes b]
  show ?thesis unfolding unf by simp
qed

text \<open>A timeout of 3 and a maximum interval of 2: three calls, pauses of 1 and 2.\<close>

theorem C4_poller_times_out_witness:
  "waitUntilPerPodVerificationFuncVerifies (exponential_backoff library_defaults) timed_updateSts
     ticking_verify 0 timed_timer \<lparr>world = \<lparr>clock = 0, pauses = []\<rparr>, trace = []\<rparr>
   = Some (\<lparr>world = \<lparr>clock = 6, pauses = [(1, 1), (3, 2)]\<rparr>,
            trace = [EvVerify InPoller 0 (Some unready), EvVerify InPoller 0 (Some unready),
                     EvVerify InPoller 0 (Some unready)]\<rparr>,
           Some (timeout_error unready))"
proof -
  have h1: "\<forall>w. snd (ticking_verify w timed_updateSts 0) \<noteq> None"
    by (simp add: ticking_verify_def)
  have h2: "\<forall>w. pauses (fst (ticking_verify w timed_updateSts 0)) = pauses w"
    by (simp add: ticking_verify_def)
  have h3: "\<forall>w. clock w \<le> clock (fst (ticking_verify w timed_updateSts 0))"
    by (simp add: ticking_verify_def)
  have h4: "(\<forall>w. clock w < clock (fst (ticking_verify w timed_updateSts 0)))
               \<or> (0 < InitialInterval library_defaults \<and> 0 < Multiplier library_defaults
                    \<and> 0 < podMaxPollingInterval timed_timer)"
    by (simp add: ticking_verify_def)
  from C4_poller_times_out [where V = ticking_verify and updateSts = timed_updateSts and k = 0
         and defaults = library_defaults and updateTimer = timed_timer
         and v = "\<lparr>world = \<lparr>clock = 0, pauses = []\<rparr>, trace = []\<rparr>", OF h1 h2 h3 h4]
  show ?thesis
    by (simp add: waitUntilPerPodVerificationFuncVerifies_def backoff_Retry_done
          backoff_Retry_failed call_verify_def exponential_backoff_def sleep_def
          ticking_verify_def timed_timer_def library_defaults_def Let_def)
qed

text \<open>
  C6. Take the iteration for \<open>p\<close> in which the idempotence check fails, the readiness
  wait succeeds, the update is persisted, the polling ends with a nil, the object is fetched
  again and the health probe then fails with \<open>err\<close>. The iteration, and with it the loop,
  returns at once: the probe is its last call, the hint is \<^verbatim>\<open>false\<close> (the value
  \<open>skipSleep\<close> was given at line 182 of this iteration) and the error is the probe's, not
  wrapped. Seen from the trace of any execution that returns: a failed probe is the last
  event, the result is \<^verbatim>\<open>(false, err)\<close>, and the ordinals visited are those from
  \<open>N - 1\<close> down to the probe's ordinal \<open>q\<close>, none below it.
\<close>

theorem C6_probe_failure_aborts:
  fixes v :: "('w, 'm) vars"
  assumes chk: "V (world v) (updateSts_now perIteration updateSts v p) (sint p) = (w1, Some verr)"
    and rdy: "waitUntilAllPodsReadyFunc updateTimer w1 = (w2, None)"
    and upd: "updatePartition Steps updateSts (Name (cur_sts v)) (Namespace (cur_sts v)) p
                (v\<lparr>skipSleep := False, world := w2,
                   trace := trace v @ [EvVerify AtLoopStart (sint p) (Some verr), EvWaitReady None]\<rparr>)
              = (v4, None)"
    and poll: "waitUntilPerPodVerificationFuncVerifies lib
                 (updateSts_now perIteration updateSts (v4\<lparr>trace := trace v4 @ [wait_log p]\<rparr>) p)
                 V (sint p) updateTimer (v4\<lparr>trace := trace v4 @ [wait_log p]\<rparr>)
               = Some (v5, None)"
    and get: "StatefulSets_Get (clientset updateSts) (world v5) (Namespace (cur_sts v))
                (Name (cur_sts v)) = (w6, Inr fetched)"
    and probe: "healthChecker_Probe updateTimer w6
                  (''between updating pods for '' @ Name (cur_sts v)) (sint p) = (w7, Some err)"
  shows "iteration Steps lib perIteration V updateSts updateTimer v p
           = Some (Return
               (v5\<lparr>local_sts := Some fetched, world := w7,
                   trace := trace v5
                     @ [EvGet (Namespace (cur_sts v)) (Name (cur_sts v)) (Inr fetched),
                        EvProbe (''between updating pods for '' @ Name (cur_sts v)) (sint p)
                          (Some err)]\<rparr>)
               False (Some err))
       \<and> (0 \<le>s p \<longrightarrow>
            loop Steps lib perIteration V updateSts updateTimer v p
              = Some (v5\<lparr>local_sts := Some fetched, world := w7,
                        trace := trace v5
                          @ [EvGet (Namespace (cur_sts v)) (Name (cur_sts v)) (Inr fetched),
                             EvProbe (''between updating pods for '' @ Name (cur_sts v)) (sint p)
                               (Some err)]\<rparr>,
                      False, Some err))
       \<and> (\<forall>n s s' out evs label q e.
             Replicas (sts updateSts) = Some n
             \<and> PartitionedRollingUpdateStrategy Steps lib perIteration V updateSts updateTimer s
                 = Some (s', out)
             \<and> trace s' = trace s @ evs \<and> EvProbe label q (Some e) \<in> set evs
           \<longrightarrow> out = Returned False (Some e)
             \<and> (\<exists>evs0. evs = evs0 @ [EvProbe label q (Some e)]
                   \<and> list_all (\<lambda>ev. \<not> failed_probe ev) evs0)
             \<and> visited evs = rev [q..sint (n - 1)])"
proof -
  from updatePartition_trace [OF upd] have "\<not> skipSleep v4" by auto
  moreover from poller_trace [OF poll] have "skipSleep v5 = skipSleep v4" by auto
  ultimately have s5: "\<not> skipSleep v5" by simp
  have it: "iteration Steps lib perIteration V updateSts updateTimer v p
           = Some (Return
               (v5\<lparr>local_sts := Some fetched, world := w7,
                   trace := trace v5
                     @ [EvGet (Namespace (cur_sts v)) (Name (cur_sts v)) (Inr fetched),
                        EvProbe (''between updating pods for '' @ Name (cur_sts v)) (sint p)
                          (Some err)]\<rparr>)
               False (Some err))"
    unfolding iteration_uses_updatePartition
                [where V = V and v = v and perIteration = perIteration and updateSts = updateSts
                   and p = p, OF chk rdy] upd
    using poll get probe s5
    by (simp add: verifyRefreshProbe_def log_Debug_def wait_log_def [symmetric] call_Get_def
          call_Probe_def Let_def del: append.simps)
  then have "0 \<le>s p \<longrightarrow>
            loop Steps lib perIteration V updateSts updateTimer v p
              = Some (v5\<lparr>local_sts := Some fetched, world := w7,
                        trace := trace v5
                          @ [EvGet (Namespace (cur_sts v)) (Name (cur_sts v)) (Inr fetched),
                             EvProbe (''between updating pods for '' @ Name (cur_sts v)) (sint p)
                               (Some err)]\<rparr>,
                      False, Some err)"
    by (simp add: loop_step)
  with it show ?thesis
    using probe_failure_is_last [of updateSts _ Steps lib perIteration V updateTimer]
    by blast
qed

text \<open>Two replicas; the probe after the update of ordinal 1 fails.\<close>

theorem C6_probe_failure_aborts_witness:
  "map_option (\<lambda>(v, b, e). (trace v, b, e))
     (loop 5 scripted_backoff True scripted_verify (crdb_updateSts 2) scripted_timer
        (init_vars (crdb_updateSts 2) (start probe_fails)) 1)
   = Some ([EvVerify AtLoopStart 1 (Some unready), EvWaitReady None,
            EvUpdate ''db'' (updated_crdb 2 1) (Inr (updated_crdb 2 1)),
            wait_log 1, EvVerify InPoller 1 None,
            EvGet ''db'' ''crdb'' (Inr (updated_crdb 2 1)),
            EvProbe probe_label 1 (Some unhealthy)], False, Some unhealthy)"
proof -
  let ?u = "crdb_updateSts 2"
  let ?v = "init_vars ?u (start probe_fails)"
  let ?w1 = "probe_fails\<lparr>verify_script := [None]\<rparr>"
  let ?v3 = "?v\<lparr>skipSleep := False, world := ?w1,
               trace := trace ?v @ [EvVerify AtLoopStart (sint (1 :: 32 word)) (Some unready), EvWaitReady None]\<rparr>"
  let ?up = "updatePartition 5 ?u (Name (cur_sts ?v)) (Namespace (cur_sts ?v)) 1 ?v3"
  let ?v4 = "fst ?up"
  let ?v4' = "?v4\<lparr>trace := trace ?v4 @ [wait_log 1]\<rparr>"
  let ?po = "waitUntilPerPodVerificationFuncVerifies scripted_backoff
               (updateSts_now True ?u ?v4' 1) scripted_verify (sint (1 :: 32 word)) scripted_timer ?v4'"
  let ?v5 = "fst (the ?po)"
  let ?w6 = "world ?v5"
  let ?w7 = "?w6\<lparr>probe_script := []\<rparr>"
  have chk: "scripted_verify (world ?v) (updateSts_now True ?u ?v 1) (sint (1 :: 32 word))
               = (?w1, Some unready)"
    by (simp add: scripted_defs init_vars_def probe_fails_def)
  have rdy: "waitUntilAllPodsReadyFunc scripted_timer ?w1 = (?w1, None)"
    by (simp add: scripted_defs probe_fails_def)
  have upd: "?up = (?v4, None)"
    by (simp add: run_simps probe_fails_def prod_eq_iff)
  have poll: "?po = Some (?v5, None)"
    by (simp add: run_simps probe_fails_def prod_eq_iff)
  have get: "StatefulSets_Get (clientset ?u) (world ?v5) (Namespace (cur_sts ?v)) (Name (cur_sts ?v))
               = (?w6, Inr (updated_crdb 2 1))"
    by (simp add: run_simps probe_fails_def updated_crdb_def)
  have probe: "healthChecker_Probe scripted_timer ?w6
                 (''between updating pods for '' @ Name (cur_sts ?v)) (sint (1 :: 32 word))
               = (?w7, Some unhealthy)"
    by (simp add: run_simps probe_fails_def)
  from C6_probe_failure_aborts
         [where V = scripted_verify and v = ?v and perIteration = True and updateSts = ?u
            and p = 1 and ?w1.0 = ?w1 and verr = unready and updateTimer = scripted_timer
            and ?w2.0 = ?w1 and Steps = 5 and ?v4.0 = ?v4 and lib = scripted_backoff
            and ?v5.0 = ?v5 and ?w6.0 = ?w6 and fetched = "updated_crdb 2 1" and ?w7.0 = ?w7
            and err = unhealthy, OF chk rdy upd poll get probe]
  have "loop 5 scripted_backoff True scripted_verify ?u scripted_timer ?v 1
          = Some (?v5\<lparr>local_sts := Some (updated_crdb 2 1), world := ?w7,
                    trace := trace ?v5
                      @ [EvGet (Namespace (cur_sts ?v)) (Name (cur_sts ?v)) (Inr (updated_crdb 2 1)),
                         EvProbe (''between updating pods for '' @ Name (cur_sts ?v))
                           (sint (1 :: 32 word)) (Some unhealthy)]\<rparr>,
                  False, Some unhealthy)"
    by (simp add: word_sle_eq)
  then show ?thesis
    by (simp add: run_simps probe_fails_def updated_crdb_def probe_label_def)
qed

text \<open>
  C10. On a run with at least one replica that returns no error, the hint returned is true
  exactly when the idempotence check of ordinal 0, the last iteration, succeeded. Skips at
  higher ordinals leave no mark: every iteration that is not skipped sets the hint to false.
\<close>

theorem C10_hint_is_last_iteration:
  assumes "Replicas (sts updateSts) = Some n" and "1 \<le> sint n"
    and "PartitionedRollingUpdateStrategy Steps lib perIteration V updateSts updateTimer s
           = Some (s', Returned b None)"
    and "trace s' = trace s @ evs"
  shows "b = (idempotence_check evs 0 = Some None)"
proof -
  from strategy_shape [OF assms(3,1)] obtain evs' where
    "trace s' = trace s @ evs'" "run_shape Steps (n - 1) False evs' b None"
    by auto
  then have run: "run_shape Steps (n - 1) False evs b None"
    using assms(4) by simp
  have "sint (n - 1) = sint n - 1"
    using assms(2) by (intro sint_pred) simp
  then show ?thesis
    using run_hint [OF run] assms(2) by simp
qed

theorem C10_hint_is_last_iteration_witness:
  "Replicas (sts (crdb_updateSts 2)) = Some 2 \<and> (1 :: int) \<le> sint (2 :: 32 word)
   \<and> idempotence_check [EvVerify AtLoopStart 1 (Some unready), EvWaitReady None,
                     EvUpdate ''db'' (updated_crdb 2 1) (Inr (updated_crdb 2 1)),
                     wait_log 1, EvVerify InPoller 1 None,
                     EvGet ''db'' ''crdb'' (Inr (updated_crdb 2 1)),
                     EvProbe probe_label 1 None,
                     EvVerify AtLoopStart 0 None, skip_log 0 :: unit event] 0 = Some None"
proof -
  let ?evs = "[EvVerify AtLoopStart 1 (Some unready), EvWaitReady None,
                     EvUpdate ''db'' (updated_crdb 2 1) (Inr (updated_crdb 2 1)),
                     wait_log 1, EvVerify InPoller 1 None,
                     EvGet ''db'' ''crdb'' (Inr (updated_crdb 2 1)),
                     EvProbe probe_label 1 None,
                     EvVerify AtLoopStart 0 None, skip_log 0 :: unit event]"
  have h1: "Replicas (sts (crdb_updateSts 2)) = Some 2" by (simp add: scripted_defs)
  have h2: "(1 :: int) \<le> sint (2 :: 32 word)" by simp
  have h4: "trace \<lparr>world = (calm 2)\<lparr>stored := updated_crdb 2 1\<rparr>, trace = ?evs\<rparr>
              = trace (start update_then_skip) @ ?evs"
    by (simp add: start_def)
  from C10_hint_is_last_iteration [OF h1 h2 run_update_then_skip h4] show ?thesis
    using h1 by simp
qed

text \<open>
  C5, as amended. When the strategy function returns an error, the entry point returns
  \<^verbatim>\<open>false\<close> as the hint, whatever hint the strategy function returned, together with
  the strategy's error wrapped with the name and the namespace. The partitioned strategy
  returns \<^verbatim>\<open>false\<close> with every error, so for it nothing is lost.
\<close>

theorem C5_entry_point_on_strategy_error:
  assumes "StatefulSets_Get cl (world s) ns nm = (w1, Inr fetched)"
    and "updateFunc updateSuite w1 fetched = (w2, Inr updated)"
    and "updateStrategyFunc updateSuite
           \<lparr>clientset = cl, sts = updated, namespace = ns, name = nm\<rparr>
           \<lparr>podUpdateTimeout = timeout, podMaxPollingInterval = maxPolling,
            healthChecker_Probe = healthChecker, waitUntilAllPodsReadyFunc = waitReady\<rparr>
           (s\<lparr>trace := trace s @ [EvGet ns nm (Inr fetched)], world := w2\<rparr>)
         = Some (s3, Returned skip (Some err))"
  shows "UpdateClusterRegionStatefulSet cl nm ns updateSuite waitReady timeout maxPolling
           healthChecker s
         = Some (s3, Returned False
             (Some (Wrapf err ''error applying updateStrategyFunc to %s %s'' [StrVal nm, StrVal ns])))
       \<and> (updateStrategyFunc updateSuite
             = PartitionedRollingUpdateStrategy Steps lib perIteration V \<longrightarrow> \<not> skip)"
proof -
  have "\<not> skip"
    if "updateStrategyFunc updateSuite = PartitionedRollingUpdateStrategy Steps lib perIteration V"
    using assms(3) strategy_error_hint unfolding that by blast
  then show ?thesis
    using assms by (simp add: UpdateClusterRegionStatefulSet_def call_Get_def Let_def)
qed

text \<open>The partitioned strategy behind the entry point, with a probe that fails.\<close>

theorem C5_entry_point_on_strategy_error_witness:
  "UpdateClusterRegionStatefulSet scripted_clientset ''crdb'' ''db''
     \<lparr>updateFunc = (\<lambda>w obj. (w, Inr obj)),
      updateStrategyFunc = PartitionedRollingUpdateStrategy 5 scripted_backoff True scripted_verify\<rparr>
     scripted_waitReady 600 30 scripted_Probe (start probe_fails)
   = Some (\<lparr>world = (calm 2)\<lparr>stored := updated_crdb 2 1\<rparr>,
            trace = [EvGet ''db'' ''crdb'' (Inr (crdb 2)),
                     EvVerify AtLoopStart 1 (Some unready), EvWaitReady None,
                     EvUpdate ''db'' (updated_crdb 2 1) (Inr (updated_crdb 2 1)),
                     wait_log 1, EvVerify InPoller 1 None,
                     EvGet ''db'' ''crdb'' (Inr (updated_crdb 2 1)),
                     EvProbe probe_label 1 (Some unhealthy)]\<rparr>,
           Returned False
             (Some (Wrapf unhealthy ''error applying updateStrategyFunc to %s %s''
                [StrVal ''crdb'', StrVal ''db''])))"
proof -
  let ?suite = "\<lparr>updateFunc = (\<lambda>w obj. (w, Inr obj)),
      updateStrategyFunc = PartitionedRollingUpdateStrategy 5 scripted_backoff True scripted_verify\<rparr>
      :: (script, unit) updateFunctionSuite"
  let ?s3 = "\<lparr>world = (calm 2)\<lparr>stored := updated_crdb 2 1\<rparr>,
            trace = [EvGet ''db'' ''crdb'' (Inr (crdb 2)),
                     EvVerify AtLoopStart 1 (Some unready), EvWaitReady None,
                     EvUpdate ''db'' (updated_crdb 2 1) (Inr (updated_crdb 2 1)),
                     wait_log 1, EvVerify InPoller 1 None,
                     EvGet ''db'' ''crdb'' (Inr (updated_crdb 2 1)),
                     EvProbe probe_label 1 (Some unhealthy)]\<rparr> :: (script, unit) io"
  have h1: "StatefulSets_Get scripted_clientset (world (start probe_fails)) ''db'' ''crdb''
              = (probe_fails, Inr (crdb 2))"
    by (simp add: scripted_defs probe_fails_def)
  have h2: "updateFunc ?suite probe_fails (crdb 2) = (probe_fails, Inr (crdb 2))"
    by simp
  have h3: "updateStrategyFunc ?suite
           \<lparr>clientset = scripted_clientset, sts = crdb 2, namespace = ''db'', name = ''crdb''\<rparr>
           \<lparr>podUpdateTimeout = 600, podMaxPollingInterval = 30,
            healthChecker_Probe = scripted_Probe, waitUntilAllPodsReadyFunc = scripted_waitReady\<rparr>
           ((start probe_fails)\<lparr>trace := trace (start probe_fails)
                                           @ [EvGet ''db'' ''crdb'' (Inr (crdb 2))],
              world := probe_fails\<rparr>)
         = Some (?s3, Returned False (Some unhealthy))"
    by (simp add: run_simps probe_fails_def updated_crdb_def probe_label_def)
  from C5_entry_point_on_strategy_error
         [where cl = scripted_clientset and s = "start probe_fails" and ns = "''db''"
            and nm = "''crdb''" and ?w1.0 = probe_fails and fetched = "crdb 2"
            and updateSuite = ?suite and ?w2.0 = probe_fails and updated = "crdb 2"
            and timeout = 600 and maxPolling = 30 and healthChecker = scripted_Probe
            and waitReady = scripted_waitReady and ?s3.0 = ?s3 and skip = False
            and err = unhealthy, OF h1 h2 h3]
  show ?thesis by simp
qed

text \<open>A strategy function that returns the hint \<^verbatim>\<open>true\<close> with its error: the entry
  point hands \<^verbatim>\<open>false\<close> to its caller.\<close>

theorem C5_counterexample:
  "updateStrategyFunc hinting_suite (crdb_updateSts 1) scripted_timer
       \<lparr>world = calm 1, trace = [EvGet ''db'' ''crdb'' (Inr (crdb 1))]\<rparr>
     = Some (\<lparr>world = calm 1, trace = [EvGet ''db'' ''crdb'' (Inr (crdb 1))]\<rparr>,
             Returned True (Some unhealthy))
   \<and> UpdateClusterRegionStatefulSet scripted_clientset ''crdb'' ''db'' hinting_suite
        scripted_waitReady 600 30 scripted_Probe (start (calm 1))
     = Some (\<lparr>world = calm 1, trace = [EvGet ''db'' ''crdb'' (Inr (crdb 1))]\<rparr>,
             Returned False
               (Some (Wrapf unhealthy ''error applying updateStrategyFunc to %s %s''
                  [StrVal ''crdb'', StrVal ''db''])))"
  by (simp add: UpdateClusterRegionStatefulSet_def call_Get_def hinting_suite_def scripted_defs)

text \<open>
  C8, as amended. The classifier has three paths: not found, status error (a conflict is
  a status error and takes this path), any other error. On each it logs one entry at
  error severity that carries the error, the name and the namespace, and changes nothing
  else. It returns the error wrapped with name and namespace on the first path and the
  error itself, not wrapped, on the other two; a nil is never returned for an error.
\<close>

theorem C8_classifier:
  assumes "handleStsError err stsName ns s = (s', e)"
  shows "world s' = world s
       \<and> (\<exists>msg key. trace s' = trace s
              @ [EvLogError err msg [(''stsName'', StrVal stsName), (key, StrVal ns)]]
            \<and> (case err of
                  StatusError r m \<Rightarrow> IsNotFound err \<or> msg = ''Error getting statefulset '' @ m
                | _ \<Rightarrow> True))
       \<and> e = (if IsNotFound err
              then Wrapf err ''sts is not found: %s ns: %s'' [StrVal stsName, StrVal ns]
              else err)"
  using assms
  by (cases err) (auto simp: handleStsError_def log_Error_def split: if_splits)

text \<open>A not-found error is logged and wrapped.\<close>

theorem C8_classifier_witness:
  "handleStsError (StatusError StatusReasonNotFound ''statefulsets crdb not found'') ''crdb'' ''db''
      (start (calm 1))
   = (\<lparr>world = calm 1,
        trace = [EvLogError (StatusError StatusReasonNotFound ''statefulsets crdb not found'')
                   ''sts is not found'' [(''stsName'', StrVal ''crdb''), (''namespace'', StrVal ''db'')]]\<rparr>,
      Wrapf (StatusError StatusReasonNotFound ''statefulsets crdb not found'')
        ''sts is not found: %s ns: %s'' [StrVal ''crdb'', StrVal ''db''])"
proof -
  have h: "handleStsError (StatusError StatusReasonNotFound ''statefulsets crdb not found'')
             ''crdb'' ''db'' (start (calm 1))
           = (fst (handleStsError (StatusError StatusReasonNotFound ''statefulsets crdb not found'')
                     ''crdb'' ''db'' (start (calm 1))),
              snd (handleStsError (StatusError StatusReasonNotFound ''statefulsets crdb not found'')
                     ''crdb'' ''db'' (start (calm 1))))"
    by simp
  from C8_classifier [OF h] show ?thesis
    by (simp add: handleStsError_def log_Error_def IsNotFound_def start_def)
qed

text \<open>A conflict comes back as it went in: logged, but not wrapped.\<close>

theorem C8_counterexample:
  "snd (handleStsError conflict ''crdb'' ''db'' (start (calm 1))) = conflict
   \<and> \<not> is_wrapped (snd (handleStsError conflict ''crdb'' ''db'' (start (calm 1))))"
  by (simp add: handleStsError_def log_Error_def IsNotFound_def conflict_def)

end
